theory Spec2Isabelle
  imports Main
begin

section \<open>JavaScript strings and values\<close>

text \<open>
  A JavaScript string is modelled as the list of its code units, restricted to the
  code units \<open>0x00..0xFF\<close> (type \<open>char\<close>); strings holding a code unit above
  \<open>0xFF\<close> are outside the model.  \<open>jsval\<close> holds the values that the fields of an
  attachment take in \<open>lib/http.js\<close>: \<open>null\<close>, \<open>undefined\<close> or a string.
\<close>

datatype jsval = JNull | JUndefined | JStr string

datatype error = TypeError

text \<open>Reading an array element: an index past the end reads \<open>undefined\<close>.\<close>

definition js_index :: "string list \<Rightarrow> nat \<Rightarrow> jsval" where
  "js_index xs i = (if i < length xs then JStr (xs ! i) else JUndefined)"

text \<open>
  The comparison \<open>v == ''\<close> of the source: \<open>undefined\<close> and \<open>null\<close> are not loosely
  equal to the empty string.
\<close>

definition loose_eq_empty :: "jsval \<Rightarrow> bool" where
  "loose_eq_empty v = (case v of JStr w \<Rightarrow> w = [] | _ \<Rightarrow> False)"

section \<open>The regular expressions of the runtime\<close>

text \<open>
  The patterns of \<open>lib/http.js\<close> use literal characters, character classes, the
  greedy star of a class, one greedy optional group, capture groups, one back
  reference and the anchors \<open>^\<close> and \<open>$\<close>.  \<open>rx_results\<close> lists the end states of
  all the ways a pattern matches from a state, in the order in which the backtracking
  matcher of ECMAScript tries them; the first one is the match that \<open>exec\<close> reports.
  A state is the position reached in the input and the captures made so far (the
  latest first, read with \<open>map_of\<close>; a group without an entry is \<open>undefined\<close>).
\<close>

datatype cls_item = Word | Space | NonSpace | Ch char

datatype cls = Class bool "cls_item list"

datatype regex =
    Str string
  | Atom cls
  | Star cls
  | Seq regex regex
  | Opt regex
  | Group nat regex
  | Backref nat
  | Bol
  | Eol

record flags =
  ignoreCase :: bool
  multiline :: bool

type_synonym captures = "(nat \<times> string) list"
type_synonym mstate = "nat \<times> captures"

definition is_word :: "char \<Rightarrow> bool" where
  "is_word c = (let n = (of_char c :: nat) in
     (97 \<le> n \<and> n \<le> 122) \<or> (65 \<le> n \<and> n \<le> 90) \<or> (48 \<le> n \<and> n \<le> 57) \<or> n = 95)"

definition is_space :: "char \<Rightarrow> bool" where
  "is_space c = ((of_char c :: nat) \<in> {9, 10, 11, 12, 13, 32, 160})"

definition is_line_terminator :: "char \<Rightarrow> bool" where
  "is_line_terminator c = ((of_char c :: nat) \<in> {10, 13})"

text \<open>
  \<open>Canonicalize\<close> of ECMAScript without the \<open>u\<close> flag maps a code unit to its upper
  case when that is a single code unit; within \<open>0x00..0xFF\<close> this moves \<open>a..z\<close> and
  \<open>0xE0..0xFE\<close> (but \<open>0xF7\<close>) down by 32, and two code units of the range are
  canonically equal exactly when their images here are equal.
\<close>

definition canonicalize :: "char \<Rightarrow> char" where
  "canonicalize c = (let n = (of_char c :: nat) in
     if (97 \<le> n \<and> n \<le> 122) \<or> (224 \<le> n \<and> n \<le> 254 \<and> n \<noteq> 247)
     then char_of (n - 32) else c)"

definition to_lower :: "char \<Rightarrow> char" where
  "to_lower c = (let n = (of_char c :: nat) in
     if (65 \<le> n \<and> n \<le> 90) \<or> (192 \<le> n \<and> n \<le> 222 \<and> n \<noteq> 215)
     then char_of (n + 32) else c)"

definition char_eq :: "flags \<Rightarrow> char \<Rightarrow> char \<Rightarrow> bool" where
  "char_eq fl a b = (if ignoreCase fl then canonicalize a = canonicalize b else a = b)"

fun item_mem :: "cls_item \<Rightarrow> char \<Rightarrow> bool" where
  "item_mem Word c = is_word c"
| "item_mem Space c = is_space c"
| "item_mem NonSpace c = (\<not> is_space c)"
| "item_mem (Ch a) c = (a = c)"

text \<open>
  A class holds \<open>c\<close> when one of its members is \<open>c\<close>; under \<open>ignoreCase\<close>, when one of
  its members is canonically equal to \<open>c\<close>, and the members canonically equal to \<open>c\<close>
  are among \<open>c\<close>, its upper case and its lower case.  A negated class inverts the answer.
\<close>

definition cls_mem :: "flags \<Rightarrow> cls \<Rightarrow> char \<Rightarrow> bool" where
  "cls_mem fl k c = (case k of Class neg items \<Rightarrow>
     neg \<noteq> (list_ex (\<lambda>it. item_mem it c \<or>
        (ignoreCase fl \<and> (item_mem it (canonicalize c) \<or> item_mem it (to_lower c)))) items))"

function star_results :: "flags \<Rightarrow> string \<Rightarrow> cls \<Rightarrow> mstate \<Rightarrow> mstate list" where
  "star_results fl s k (i, cs) =
     (if i < length s \<and> cls_mem fl k (s ! i)
      then star_results fl s k (Suc i, cs) @ [(i, cs)]
      else [(i, cs)])"
  by pat_completeness auto
termination
  by (relation "measure (\<lambda>(fl, s, k, i, cs). length s - i)") auto

declare star_results.simps [simp del]

fun rx_results :: "flags \<Rightarrow> string \<Rightarrow> regex \<Rightarrow> mstate \<Rightarrow> mstate list" where
  "rx_results fl s (Str w) (i, cs) =
     (if i + length w \<le> length s \<and> list_all2 (char_eq fl) w (take (length w) (drop i s))
      then [(i + length w, cs)] else [])"
| "rx_results fl s (Atom k) (i, cs) =
     (if i < length s \<and> cls_mem fl k (s ! i) then [(Suc i, cs)] else [])"
| "rx_results fl s (Star k) (i, cs) = star_results fl s k (i, cs)"
| "rx_results fl s (Seq a b) st = concat (map (rx_results fl s b) (rx_results fl s a st))"
| "rx_results fl s (Opt a) (i, cs) =
     filter (\<lambda>st'. fst st' \<noteq> i) (rx_results fl s a (i, cs)) @ [(i, cs)]"
| "rx_results fl s (Group n a) (i, cs) =
     map (\<lambda>(j, cs'). (j, (n, take (j - i) (drop i s)) # cs')) (rx_results fl s a (i, cs))"
| "rx_results fl s (Backref n) (i, cs) =
     (case map_of cs n of
        None \<Rightarrow> [(i, cs)]
      | Some w \<Rightarrow>
          if i + length w \<le> length s \<and> list_all2 (char_eq fl) w (take (length w) (drop i s))
          then [(i + length w, cs)] else [])"
| "rx_results fl s Bol (i, cs) =
     (if i = 0 \<or> (multiline fl \<and> is_line_terminator (s ! (i - 1))) then [(i, cs)] else [])"
| "rx_results fl s Eol (i, cs) =
     (if i \<ge> length s \<or> (multiline fl \<and> is_line_terminator (s ! i)) then [(i, cs)] else [])"

text \<open>
  The same matcher in the style of the ECMAScript specification: a matcher takes a
  state and a continuation and returns the first result that the continuation accepts,
  trying the alternatives in order and going back when the continuation fails.
  Lemma \<open>rx_match_results\<close> below shows that \<open>rx_match\<close> runs the continuation over
  \<open>rx_results\<close> from left to right, and lemma \<open>rx_exec_backtracking\<close> that \<open>rx_exec\<close>
  is the search of \<open>exec\<close> with this matcher.
\<close>

fun first_some :: "('a \<Rightarrow> 'b option) \<Rightarrow> 'a list \<Rightarrow> 'b option" where
  "first_some k [] = None"
| "first_some k (x # xs) = (case k x of Some r \<Rightarrow> Some r | None \<Rightarrow> first_some k xs)"

text \<open>The greedy star: one more code unit first, the continuation after.\<close>

function star_match ::
  "flags \<Rightarrow> string \<Rightarrow> cls \<Rightarrow> mstate \<Rightarrow> (mstate \<Rightarrow> 'r option) \<Rightarrow> 'r option" where
  "star_match fl s k (i, cs) c =
     (if i < length s \<and> cls_mem fl k (s ! i)
      then (case star_match fl s k (Suc i, cs) c of
              Some r \<Rightarrow> Some r
            | None \<Rightarrow> c (i, cs))
      else c (i, cs))"
  by pat_completeness auto
termination
  by (relation "measure (\<lambda>(fl, s, k, st, c). length s - fst st)") auto

declare star_match.simps [simp del]

fun rx_match ::
  "flags \<Rightarrow> string \<Rightarrow> regex \<Rightarrow> mstate \<Rightarrow> (mstate \<Rightarrow> 'r option) \<Rightarrow> 'r option" where
  "rx_match fl s (Str w) (i, cs) c =
     (if i + length w \<le> length s \<and> list_all2 (char_eq fl) w (take (length w) (drop i s))
      then c (i + length w, cs) else None)"
| "rx_match fl s (Atom k) (i, cs) c =
     (if i < length s \<and> cls_mem fl k (s ! i) then c (Suc i, cs) else None)"
| "rx_match fl s (Star k) (i, cs) c = star_match fl s k (i, cs) c"
| "rx_match fl s (Seq a b) (i, cs) c = rx_match fl s a (i, cs) (\<lambda>st'. rx_match fl s b st' c)"
| "rx_match fl s (Opt a) (i, cs) c =
     (case rx_match fl s a (i, cs) (\<lambda>st'. if fst st' = i then None else c st') of
        Some r \<Rightarrow> Some r
      | None \<Rightarrow> c (i, cs))"
| "rx_match fl s (Group n a) (i, cs) c =
     rx_match fl s a (i, cs) (\<lambda>st'. c (fst st', (n, take (fst st' - i) (drop i s)) # snd st'))"
| "rx_match fl s (Backref n) (i, cs) c =
     (case map_of cs n of
        None \<Rightarrow> c (i, cs)
      | Some w \<Rightarrow>
          if i + length w \<le> length s \<and> list_all2 (char_eq fl) w (take (length w) (drop i s))
          then c (i + length w, cs) else None)"
| "rx_match fl s Bol (i, cs) c =
     (if i = 0 \<or> (multiline fl \<and> is_line_terminator (s ! (i - 1))) then c (i, cs) else None)"
| "rx_match fl s Eol (i, cs) c =
     (if i \<ge> length s \<or> (multiline fl \<and> is_line_terminator (s ! i)) then c (i, cs) else None)"

text \<open>
  \<open>exec\<close> on a pattern whose \<open>lastIndex\<close> is 0 (every pattern of the source is a fresh
  literal): the start positions are tried from 0 to the length of the input, and the
  first position with a match gives the result.
\<close>

definition rx_exec :: "flags \<Rightarrow> regex \<Rightarrow> string \<Rightarrow> (nat \<times> mstate) option" where
  "rx_exec fl r s =
     (case find (\<lambda>i. rx_results fl s r (i, []) \<noteq> []) [0 ..< Suc (length s)] of
        None \<Rightarrow> None
      | Some i \<Rightarrow> Some (i, hd (rx_results fl s r (i, []))))"

text \<open>Element 0 of the match array, the matched text, and element \<open>n\<close>, a capture.\<close>

definition matched :: "string \<Rightarrow> nat \<times> mstate \<Rightarrow> string" where
  "matched s m = (case m of (i, j, cs) \<Rightarrow> take (j - i) (drop i s))"

definition capture :: "nat \<times> mstate \<Rightarrow> nat \<Rightarrow> string option" where
  "capture m n = (case m of (i, j, cs) \<Rightarrow> map_of cs n)"

section \<open>handleResponse: the envelope\<close>

text \<open>
  \<^verbatim>\<open>/(?:<\?[^?]*\?>[\s]*)?<([^:]*):Envelope([\S\s]*)<\/\1:Envelope>/i\<close>
\<close>

definition env_flags :: flags where
  "env_flags = \<lparr>ignoreCase = True, multiline = False\<rparr>"

definition env_regex :: regex where
  "env_regex =
     Seq (Opt (Seq (Str ''<?'') (Seq (Star (Class True [Ch (CHR ''?'')]))
            (Seq (Str ''?>'') (Star (Class False [Space]))))))
    (Seq (Str ''<'') (Seq (Group 1 (Star (Class True [Ch (CHR '':'')])))
    (Seq (Str '':Envelope'') (Seq (Group 2 (Star (Class False [NonSpace, Space])))
    (Seq (Str ''</'') (Seq (Backref 1) (Str '':Envelope>'')))))))"

text \<open>
  Lines 95 to 98 of \<open>handleResponse\<close>: the body becomes the matched text when the
  pattern matches, and stays as it is otherwise.
\<close>

definition extract_envelope :: "string \<Rightarrow> string" where
  "extract_envelope body =
     (case rx_exec env_flags env_regex body of
        None \<Rightarrow> body
      | Some m \<Rightarrow> matched body m)"

section \<open>handleBinaries: the attachments\<close>

text \<open>
  The response object, as far as the source reads and writes it: the headers (an
  object of the runtime, which gives the header names in lower case; here an
  association list read with \<open>map_of\<close>) and the property \<open>binaries\<close>, absent
  until \<open>handleBinaries\<close> assigns it.
\<close>

record attachment =
  mime :: jsval
  data :: jsval

type_synonym binaries = "(string \<times> attachment) list"

record response =
  headers :: "(string \<times> string) list"
  res_binaries :: "binaries option"

text \<open>
  \<open>binaries\<close> is an object literal \<open>{}\<close>; the model keeps its own properties, in an
  association list.  Its prototype is \<open>Object.prototype\<close>, whose property names are
  listed here: reading one of these from \<open>binaries\<close> gives an object (a method, or the
  prototype itself under \<open>__proto__\<close>) when \<open>binaries\<close> has no own property of that name.
\<close>

definition object_prototype_names :: "string list" where
  "object_prototype_names =
     [''constructor'', ''__defineGetter__'', ''__defineSetter__'', ''hasOwnProperty'',
      ''__lookupGetter__'', ''__lookupSetter__'', ''isPrototypeOf'',
      ''propertyIsEnumerable'', ''toString'', ''valueOf'', ''__proto__'',
      ''toLocaleString'']"

fun alist_update :: "string \<Rightarrow> 'v \<Rightarrow> (string \<times> 'v) list \<Rightarrow> (string \<times> 'v) list" where
  "alist_update k v [] = [(k, v)]"
| "alist_update k v (p # ps) = (if fst p = k then (k, v) # ps else p # alist_update k v ps)"

text \<open>
  The assignment \<open>obj[k] = v\<close> on an object literal: it creates or overwrites the own
  property \<open>k\<close>, but under the name \<open>__proto__\<close> it runs the setter of
  \<open>Object.prototype\<close>, which creates no own property.
\<close>

definition set_prop :: "string \<Rightarrow> 'v \<Rightarrow> (string \<times> 'v) list \<Rightarrow> (string \<times> 'v) list" where
  "set_prop k v obj = (if k = ''__proto__'' then obj else alist_update k v obj)"

text \<open>
  The assignment \<open>binaries[binId].f = v\<close> in strict mode.  With an own property
  \<open>binId\<close> the attachment is updated.  Without one, a name of \<open>Object.prototype\<close>
  reads an object outside the map, which takes the write and leaves the own
  properties as they are (what the write does to that shared object of the runtime is
  not followed); any other name reads \<open>undefined\<close>, or a \<open>null\<close>, \<open>undefined\<close> or
  string field of a prototype installed through \<open>__proto__\<close>, and the write throws a
  \<open>TypeError\<close>.
\<close>

definition set_field ::
  "binaries \<Rightarrow> string \<Rightarrow> (attachment \<Rightarrow> attachment) \<Rightarrow> error + binaries" where
  "set_field b binId upd =
     (case map_of b binId of
        Some a \<Rightarrow> Inr (alist_update binId (upd a) b)
      | None \<Rightarrow> if binId \<in> set object_prototype_names then Inr b else Inl TypeError)"

text \<open>
  \<open>String.prototype.split\<close> with a string separator: the occurrences of a non-empty
  separator are found from left to right without overlap; the empty separator splits
  into the single code units.
\<close>

fun split_go :: "string \<Rightarrow> string \<Rightarrow> string \<Rightarrow> string list" where
  "split_go sep cur [] = [cur]"
| "split_go sep cur (c # cs) =
     (if sep \<noteq> [] \<and> take (length sep) (c # cs) = sep
      then cur # split_go sep [] (drop (length sep - 1) cs)
      else split_go sep (cur @ [c]) cs)"

definition split :: "string \<Rightarrow> string \<Rightarrow> string list" where
  "split s sep = (if sep = [] then map (\<lambda>c. [c]) s else split_go sep [] s)"

text \<open>The separator \<open>'\r\n'\<close> of line 152.\<close>

definition CRLF :: string where
  "CRLF = [CHR 0x0D, CHR 0x0A]"

text \<open>\<open>s.indexOf(w) != -1\<close>\<close>

fun contains :: "string \<Rightarrow> string \<Rightarrow> bool" where
  "contains [] w = (w = [])"
| "contains (c # cs) w = (take (length w) (c # cs) = w \<or> contains cs w)"

text \<open>
  \<^verbatim>\<open>bou_regex = /(?:boundary=)([\w-]*)(?:;)/i\<close>

  \<^verbatim>\<open>inc_regex = /(?:<xop\:Include href="cid\:)([\w@\.-]*)(?:"><\/xop\:Include>)/gi\<close>

  \<^verbatim>\<open>id_regex = /^(?:Content-Id: <)([\w\/\.@-]*)(?:>)$/m\<close>

  \<^verbatim>\<open>mim_regex = /^(?:Content-Type: )([\w\/+-]*)$/m\<close>
\<close>

definition bou_flags :: flags where
  "bou_flags = \<lparr>ignoreCase = True, multiline = False\<rparr>"

definition bou_regex :: regex where
  "bou_regex =
     Seq (Str ''boundary='')
    (Seq (Group 1 (Star (Class False [Word, Ch (CHR ''-'')])))
         (Str '';''))"

definition inc_flags :: flags where
  "inc_flags = \<lparr>ignoreCase = True, multiline = False\<rparr>"

definition inc_regex :: regex where
  \<open>inc_regex =
     Seq (Str ''<xop:Include href="cid:'')
    (Seq (Group 1 (Star (Class False [Word, Ch (CHR ''@''), Ch (CHR ''.''), Ch (CHR ''-'')])))
         (Str ''"></xop:Include>''))\<close>

definition id_flags :: flags where
  "id_flags = \<lparr>ignoreCase = False, multiline = True\<rparr>"

definition id_regex :: regex where
  "id_regex =
     Seq Bol (Seq (Str ''Content-Id: <'')
    (Seq (Group 1 (Star (Class False
            [Word, Ch (CHR ''/''), Ch (CHR ''.''), Ch (CHR ''@''), Ch (CHR ''-'')])))
    (Seq (Str ''>'') Eol)))"

definition mim_flags :: flags where
  "mim_flags = \<lparr>ignoreCase = False, multiline = True\<rparr>"

definition mim_regex :: regex where
  "mim_regex =
     Seq Bol (Seq (Str ''Content-Type: '')
    (Seq (Group 1 (Star (Class False
            [Word, Ch (CHR ''/''), Ch (CHR ''+''), Ch (CHR ''-'')])))
         Eol))"

text \<open>
  A property name made from an element of a match array: an unset capture is
  \<open>undefined\<close>, whose name is the string \<open>undefined\<close>.
\<close>

definition prop_name :: "string option \<Rightarrow> string" where
  "prop_name g = (case g of None \<Rightarrow> ''undefined'' | Some w \<Rightarrow> w)"

text \<open>
  Lines 123 to 130: the loop runs over the elements 1 to \<open>match.length - 1\<close> of the
  one match array that \<open>exec\<close> returned, which are its captures.
\<close>

fun seed :: "string option list \<Rightarrow> binaries \<Rightarrow> binaries" where
  "seed [] b = b"
| "seed (g # gs) b = seed gs (set_prop (prop_name g) \<lparr>mime = JNull, data = JNull\<rparr> b)"

text \<open>Lines 140 to 157: the body of the loop over the parts.\<close>

definition handle_part :: "binaries \<Rightarrow> string \<Rightarrow> error + binaries" where
  "handle_part b part =
     (case rx_exec id_flags id_regex part of
        None \<Rightarrow> Inr b
      | Some im \<Rightarrow>
          let binId = prop_name (capture im 1);
              b1 = (case rx_exec mim_flags mim_regex part of
                      None \<Rightarrow> Inr b
                    | Some mm \<Rightarrow>
                        set_field b binId
                          (\<lambda>a. a\<lparr>mime := (case capture mm 1 of None \<Rightarrow> JUndefined
                                                               | Some w \<Rightarrow> JStr w)\<rparr>))
          in (case b1 of
                Inl e \<Rightarrow> Inl e
              | Inr b2 \<Rightarrow>
                  let aux = (if contains part CRLF
                             then split part CRLF
                             else split part ''\<newline>'')
                  in set_field b2 binId
                       (\<lambda>a. a\<lparr>data := (if loose_eq_empty (js_index aux 4)
                                        then js_index aux 5 else js_index aux 4)\<rparr>)))"

fun handle_parts :: "binaries \<Rightarrow> string list \<Rightarrow> error + binaries" where
  "handle_parts b [] = Inr b"
| "handle_parts b (part # parts) =
     (case handle_part b part of
        Inl e \<Rightarrow> Inl e
      | Inr b' \<Rightarrow> handle_parts b' parts)"

text \<open>
  A header that the response does not have reads \<open>undefined\<close>, which \<open>exec\<close> turns
  into the string \<open>undefined\<close>.
\<close>

definition header_text :: "string option \<Rightarrow> string" where
  "header_text h = (case h of None \<Rightarrow> ''undefined'' | Some v \<Rightarrow> v)"

text \<open>
  \<open>handleBinaries\<close>, lines 108 to 162.  The result is the response with \<open>binaries\<close>
  assigned, or the \<open>TypeError\<close> thrown on the way, in which case line 161 is not reached.
  The conditions \<open>x && x.length > 0\<close> of the source test a match array, which is
  \<open>null\<close> or has one element at least: they hold exactly when the pattern matched.
  \<open>split\<close> with the separator \<open>undefined\<close> gives the whole string as the one part.
\<close>

definition handleBinaries :: "response \<Rightarrow> string \<Rightarrow> error + response" where
  "handleBinaries res body =
     (case rx_exec bou_flags bou_regex (header_text (map_of (headers res) ''content-type'')) of
        None \<Rightarrow> Inr (res\<lparr>res_binaries := Some []\<rparr>)
      | Some bm \<Rightarrow>
          (case rx_exec inc_flags inc_regex body of
             None \<Rightarrow> Inr (res\<lparr>res_binaries := Some []\<rparr>)
           | Some m \<Rightarrow>
               let boundary = capture bm 1;
                   binaries = seed (map (capture m) [1 ..< 2]) [];
                   bodyParts = (case boundary of
                                  None \<Rightarrow> [body]
                                | Some sep \<Rightarrow> split body sep)
               in (case handle_parts binaries (tl bodyParts) of
                     Inl e \<Rightarrow> Inl e
                   | Inr b \<Rightarrow> Inr (res\<lparr>res_binaries := Some b\<rparr>))))"

text \<open>
  \<open>handleResponse\<close>, lines 87 to 101.  A body is a string or something else (a
  \<open>Buffer\<close>, say), which is returned as it is.
\<close>

datatype body = Text string | Binary "nat list"

definition handleResponse :: "response \<Rightarrow> body \<Rightarrow> error + response \<times> body" where
  "handleResponse res b =
     (case b of
        Text s \<Rightarrow>
          (case handleBinaries res s of
             Inl e \<Rightarrow> Inl e
           | Inr res' \<Rightarrow> Inr (res', Text (extract_envelope s)))
      | Binary bs \<Rightarrow> Inr (res, Binary bs))"

section \<open>buildRequest\<close>

text \<open>
  \<open>url.parse\<close> belongs to the runtime and is a parameter of the model, as is
  \<open>VERSION\<close>, read from \<open>package.json\<close>.  A parsed URL has the fields that
  \<open>buildRequest\<close> reads; a field is \<open>None\<close> where \<open>url.parse\<close> gives \<open>null\<close>.
\<close>

record parsed_url =
  protocol :: "string option"
  hostname :: "string option"
  port :: "string option"
  pathname :: "string option"
  search :: "string option"
  hash :: "string option"

text \<open>The payload \<open>data\<close>: absent, \<open>null\<close>, a string, or an object.\<close>

datatype payload = PUndefined | PNull | PStr string | PObj string

text \<open>A header value is a string or a number (\<open>Content-Length\<close>).\<close>

datatype hval = HStr string | HNum nat

type_synonym header_obj = "(string \<times> hval) list"

text \<open>The values of the properties of the request description.\<close>

datatype oval =
    OUrl parsed_url
  | OStr string
  | OBool bool
  | ONum int
  | OHeaders header_obj
  | OPayload payload

type_synonym options = "(string \<times> oval) list"

text \<open>The condition \<open>data ? ... : ...\<close>: the empty string is falsy, every object truthy.\<close>

fun truthy :: "payload \<Rightarrow> bool" where
  "truthy PUndefined = False"
| "truthy PNull = False"
| "truthy (PStr s) = (s \<noteq> [])"
| "truthy (PObj x) = True"

text \<open>
  \<open>parseInt(x, 10)\<close>: leading white space and a sign are skipped and the longest run
  of decimal digits is read; \<open>None\<close> is \<open>NaN\<close>.  The runtime rounds the value to a
  double, and prints the double: \<open>parseInt10\<close> and \<open>number_text\<close> keep the exact
  integer, so they agree with the runtime for values below \<open>2 ^ 53\<close>, which covers
  every port, and not above.
\<close>

definition is_digit :: "char \<Rightarrow> bool" where
  "is_digit c = (let n = (of_char c :: nat) in 48 \<le> n \<and> n \<le> 57)"

definition digits_value :: "string \<Rightarrow> nat" where
  "digits_value ds = foldl (\<lambda>acc c. 10 * acc + (of_char c - 48)) 0 ds"

definition parseInt10 :: "string \<Rightarrow> int option" where
  "parseInt10 x =
     (let t = dropWhile is_space x;
          neg = (t \<noteq> [] \<and> hd t = CHR ''-'');
          u = (if t \<noteq> [] \<and> (hd t = CHR ''-'' \<or> hd t = CHR ''+'') then tl t else t);
          z = takeWhile is_digit u
      in if z = [] then None
         else Some (if neg then - int (digits_value z) else int (digits_value z)))"

text \<open>The decimal text of a number, as \<open>':' + port\<close> makes it.\<close>

definition digit_char :: "nat \<Rightarrow> char" where
  "digit_char d = ''0123456789'' ! d"

function dec :: "nat \<Rightarrow> string" where
  "dec n = (if n < 10 then [digit_char n] else dec (n div 10) @ [digit_char (n mod 10)])"
  by pat_completeness auto
termination
  by (relation "measure id") auto

declare dec.simps [simp del]

definition number_text :: "int \<Rightarrow> string" where
  "number_text n = (if n < 0 then CHR ''-'' # dec (nat (- n)) else dec (nat n))"

text \<open>\<open>null + ''\<close> is the string \<open>null\<close>.\<close>

definition null_text :: "string option \<Rightarrow> string" where
  "null_text x = (case x of None \<Rightarrow> ''null'' | Some v \<Rightarrow> v)"

text \<open>\<open>Buffer.byteLength(data, 'utf8')\<close> on code units below \<open>0x100\<close>.\<close>

definition byteLength :: "string \<Rightarrow> nat" where
  "byteLength s = sum_list (map (\<lambda>c. if (of_char c :: nat) < 128 then 1 else 2) s)"

text \<open>The loops \<open>for (attr in ex) obj[attr] = ex[attr]\<close>, after \<open>ex = ex || {}\<close>.\<close>

definition merge :: "(string \<times> 'v) list \<Rightarrow> (string \<times> 'v) list option \<Rightarrow> (string \<times> 'v) list" where
  "merge obj ex =
     (case ex of
        None \<Rightarrow> obj
      | Some kvs \<Rightarrow> foldl (\<lambda>acc kv. set_prop (fst kv) (snd kv) acc) obj kvs)"

text \<open>
  Lines 37, 38 and 41 to 59 of \<open>buildRequest\<close>: the headers of the request, the
  defaults first, then the two headers of a string payload, then the extra headers.
\<close>

definition build_headers ::
  "parsed_url \<Rightarrow> string \<Rightarrow> payload \<Rightarrow> header_obj option \<Rightarrow> header_obj" where
  "build_headers curl VERSION dat exheaders =
     (let host = hostname curl;
          port = parseInt10 (null_text (port curl));
          headers0 =
            [(''User-Agent'', HStr (''node-soap/'' @ VERSION)),
             (''Accept'', HStr
                ''text/html,application/xhtml+xml,application/xml,text/xml;q=0.9,*/*;q=0.8''),
             (''Accept-Encoding'', HStr ''none''),
             (''Accept-Charset'', HStr ''utf-8''),
             (''Connection'', HStr ''close''),
             (''Host'', HStr (null_text host @
                (case port of None \<Rightarrow> [] | Some n \<Rightarrow> '':'' @ number_text n)))];
          headers1 =
            (case dat of
               PStr d \<Rightarrow>
                 set_prop ''Content-Type'' (HStr ''application/x-www-form-urlencoded'')
                   (set_prop ''Content-Length'' (HNum (byteLength d)) headers0)
             | _ \<Rightarrow> headers0)
      in merge headers1 exheaders)"

text \<open>
  \<open>buildRequest\<close>, lines 34 to 78.  The locals \<open>secure\<close> and \<open>path\<close> are computed
  by the source and never used; the model leaves them out.
\<close>

definition buildRequest ::
  "(string \<Rightarrow> parsed_url) \<Rightarrow> string \<Rightarrow>
   string \<Rightarrow> payload \<Rightarrow> header_obj option \<Rightarrow> options option \<Rightarrow> options" where
  "buildRequest url_parse VERSION rurl dat exheaders exoptions =
     (let curl = url_parse rurl;
          method = (if truthy dat then ''POST'' else ''GET'');
          headers = build_headers curl VERSION dat exheaders;
          options0 =
            [(''uri'', OUrl curl),
             (''method'', OStr method),
             (''headers'', OHeaders headers),
             (''followAllRedirects'', OBool True)];
          options1 =
            (if map_of headers ''Connection'' = Some (HStr ''keep-alive'')
             then set_prop ''body'' (OPayload dat) options0
             else options0)
      in merge options1 exoptions)"

text \<open>Reading the request description: its method, a header, its body.\<close>

definition header_of :: "options \<Rightarrow> string \<Rightarrow> hval option" where
  "header_of opts k =
     (case map_of opts ''headers'' of
        Some (OHeaders h) \<Rightarrow> map_of h k
      | _ \<Rightarrow> None)"

section \<open>Notions used by the properties\<close>

text \<open>Patterns without the anchor \<open>$\<close>, and patterns without the anchor \<open>^\<close>.\<close>

fun no_eol :: "regex \<Rightarrow> bool" where
  "no_eol Eol = False"
| "no_eol (Seq a b) = (no_eol a \<and> no_eol b)"
| "no_eol (Opt a) = no_eol a"
| "no_eol (Group n a) = no_eol a"
| "no_eol _ = True"

fun no_bol :: "regex \<Rightarrow> bool" where
  "no_bol Bol = False"
| "no_bol (Seq a b) = (no_bol a \<and> no_bol b)"
| "no_bol (Opt a) = no_bol a"
| "no_bol (Group n a) = no_bol a"
| "no_bol _ = True"

text \<open>
  \<open>w\<close> is a closing tag \<open></p:Envelope>\<close> for the prefix \<open>p\<close>, up to the case of
  its letters, as the end \<open><\/\1:Envelope>\<close> of the envelope pattern accepts it.
\<close>

definition is_closing_tag :: "string \<Rightarrow> string \<Rightarrow> bool" where
  "is_closing_tag p w = list_all2 (char_eq env_flags) (''</'' @ p @ '':Envelope>'') w"

text \<open>The text of \<open>s\<close> from position \<open>q\<close>, \<open>n\<close> code units long at most.\<close>

definition substr :: "string \<Rightarrow> nat \<Rightarrow> nat \<Rightarrow> string" where
  "substr s q n = take n (drop q s)"

text \<open>\<open>w\<close> occurs in \<open>s\<close>, up to the case of its letters.\<close>

definition occurs_ci :: "string \<Rightarrow> string \<Rightarrow> bool" where
  "occurs_ci w s =
     list_ex (\<lambda>i. list_all2 (\<lambda>a b. canonicalize a = canonicalize b) w (substr s i (length w)))
       [0 ..< Suc (length s)]"

text \<open>The extra headers or extra options \<open>ex\<close> have a property named \<open>k\<close>.\<close>

definition sets :: "(string \<times> 'v) list option \<Rightarrow> string \<Rightarrow> bool" where
  "sets ex k = (case ex of None \<Rightarrow> False | Some kvs \<Rightarrow> k \<in> fst ` set kvs)"

text \<open>
  The lower-case letters and the upper-case letters among the code units
  \<open>0x00..0xFF\<close>, each 32 away from its partner.
\<close>

definition is_lower_n :: "nat \<Rightarrow> bool" where
  "is_lower_n n = ((97 \<le> n \<and> n \<le> 122) \<or> (224 \<le> n \<and> n \<le> 254 \<and> n \<noteq> 247))"

definition is_upper_n :: "nat \<Rightarrow> bool" where
  "is_upper_n n = ((65 \<le> n \<and> n \<le> 90) \<or> (192 \<le> n \<and> n \<le> 222 \<and> n \<noteq> 215))"

text \<open>The method of a request description.\<close>

definition method_of :: "options \<Rightarrow> oval option" where
  "method_of opts = map_of opts ''method''"

section \<open>The matcher moves forward and looks at the text it consumes\<close>

lemma star_results_mem:
  "(j, c) \<in> set (star_results fl s k (i, cs)) \<Longrightarrow> i \<le> j \<and> c = cs \<and> (i \<le> length s \<longrightarrow> j \<le> length s)"
proof (induction fl s k "(i, cs)" arbitrary: i rule: star_results.induct)
  case (1 fl s k i)
  show ?case
  proof (cases "i < length s \<and> cls_mem fl k (s ! i)")
    case True
    with "1.prems" have "(j, c) \<in> set (star_results fl s k (Suc i, cs)) \<or> (j, c) = (i, cs)"
      by (subst (asm) star_results.simps) auto
    then show ?thesis using "1.hyps"[OF True] True by auto
  next
    case False
    with "1.prems" have "(j, c) = (i, cs)"
      by (subst (asm) star_results.simps) auto
    then show ?thesis by simp
  qed
qed

lemma rx_results_mem:
  "(j, c) \<in> set (rx_results fl s r (i, cs)) \<Longrightarrow> i \<le> j \<and> (i \<le> length s \<longrightarrow> j \<le> length s)"
proof (induction r arbitrary: i cs j c)
  case (Str w) then show ?case by (auto split: if_splits)
next
  case (Atom k) then show ?case by (auto split: if_splits)
next
  case (Star k) then show ?case using star_results_mem by fastforce
next
  case (Seq a b)
  from Seq.prems obtain m cm where 1: "(m, cm) \<in> set (rx_results fl s a (i, cs))"
    and 2: "(j, c) \<in> set (rx_results fl s b (m, cm))" by auto
  from Seq.IH(1)[OF 1] Seq.IH(2)[OF 2] show ?case by auto
next
  case (Opt a)
  then show ?case by (auto split: if_splits)
next
  case (Group n a)
  then show ?case by (auto split: if_splits)
next
  case (Backref n) then show ?case by (auto split: if_splits option.splits)
next
  case Bol then show ?case by (auto split: if_splits)
next
  case Eol then show ?case by (auto split: if_splits)
qed

lemma star_results_append:
  "i \<le> length s \<Longrightarrow>
   filter (\<lambda>st. fst st \<le> length s) (star_results fl (s @ t) k (i, cs)) = star_results fl s k (i, cs)"
proof (induction fl s k "(i, cs)" arbitrary: i rule: star_results.induct)
  case (1 fl s k i)
  show ?case
  proof (cases "i < length s")
    case True
    then have e: "(s @ t) ! i = s ! i" by (simp add: nth_append)
    show ?thesis
    proof (cases "cls_mem fl k (s ! i)")
      case m: True
      have "filter (\<lambda>st. fst st \<le> length s) (star_results fl (s @ t) k (Suc i, cs)) = star_results fl s k (Suc i, cs)"
        using "1.hyps" True m by simp
      then show ?thesis using True m e "1.prems"
        by (subst star_results.simps, subst (2) star_results.simps) simp
    next
      case False
      then show ?thesis using True e
        by (subst star_results.simps, subst (2) star_results.simps) simp
    qed
  next
    case False
    with "1.prems" have il: "i = length s" by simp
    have "\<forall>x \<in> set (star_results fl (s @ t) k (Suc i, cs)). \<not> fst x \<le> length s"
      using star_results_mem[of _ _ fl "s @ t" k "Suc i" cs] il by fastforce
    then have "filter (\<lambda>st. fst st \<le> length s) (star_results fl (s @ t) k (Suc i, cs)) = []"
      by (simp add: filter_empty_conv)
    then show ?thesis using il
      by (subst star_results.simps, subst (2) star_results.simps) simp
  qed
qed

lemma filter_concat_map:
  assumes "\<And>x. x \<in> set xs \<Longrightarrow> \<not> P x \<Longrightarrow> filter Q (f x) = []"
    and "\<And>x. x \<in> set xs \<Longrightarrow> P x \<Longrightarrow> filter Q (f x) = g x"
  shows "filter Q (concat (map f xs)) = concat (map g (filter P xs))"
  using assms by (induction xs) (auto)

lemma rx_results_append:
  "no_eol r \<Longrightarrow> i \<le> length s \<Longrightarrow>
   filter (\<lambda>st. fst st \<le> length s) (rx_results fl (s @ t) r (i, cs)) = rx_results fl s r (i, cs)"
proof (induction r arbitrary: i cs)
  case (Str w)
  then show ?case by (auto simp: take_all_iff)
next
  case (Atom k)
  then show ?case by (auto simp: nth_append)
next
  case (Star k)
  then show ?case by (simp add: star_results_append)
next
  case (Seq a b)
  let ?Q = "\<lambda>st::mstate. fst st \<le> length s"
  have A: "filter ?Q (rx_results fl (s @ t) a (i, cs)) = rx_results fl s a (i, cs)"
    using Seq by simp
  have "filter ?Q (concat (map (rx_results fl (s @ t) b) (rx_results fl (s @ t) a (i, cs))))
      = concat (map (rx_results fl s b) (filter ?Q (rx_results fl (s @ t) a (i, cs))))"
  proof (rule filter_concat_map)
    fix x assume "x \<in> set (rx_results fl (s @ t) a (i, cs))" "\<not> ?Q x"
    then show "filter ?Q (rx_results fl (s @ t) b x) = []"
      using rx_results_mem[of _ _ fl "s @ t" b "fst x" "snd x"]
      by (fastforce simp: filter_empty_conv)
  next
    fix x assume "x \<in> set (rx_results fl (s @ t) a (i, cs))" "?Q x"
    then show "filter ?Q (rx_results fl (s @ t) b x) = rx_results fl s b x"
      using Seq.IH(2)[of "fst x" "snd x"] Seq.prems by simp
  qed
  then show ?case using A by simp
next
  case (Opt a)
  have A: "filter (\<lambda>st. fst st \<le> length s) (rx_results fl (s @ t) a (i, cs)) = rx_results fl s a (i, cs)"
    using Opt by simp
  have "filter (\<lambda>st. fst st \<le> length s) (filter (\<lambda>st'. fst st' \<noteq> i) (rx_results fl (s @ t) a (i, cs)))
      = filter (\<lambda>st'. fst st' \<noteq> i) (filter (\<lambda>st. fst st \<le> length s) (rx_results fl (s @ t) a (i, cs)))"
    by (simp add: conj_commute)
  also have "\<dots> = filter (\<lambda>st'. fst st' \<noteq> i) (rx_results fl s a (i, cs))"
    by (simp only: A)
  finally show ?case using Opt.prems by simp
next
  case (Group n a)
  let ?Q = "\<lambda>st::mstate. fst st \<le> length s"
  have A: "filter ?Q (rx_results fl (s @ t) a (i, cs)) = rx_results fl s a (i, cs)"
    using Group by simp
  have "filter ?Q (map (\<lambda>(j, cs'). (j, (n, take (j - i) (drop i (s @ t))) # cs')) (rx_results fl (s @ t) a (i, cs)))
      = map (\<lambda>(j, cs'). (j, (n, take (j - i) (drop i (s @ t))) # cs')) (filter ?Q (rx_results fl (s @ t) a (i, cs)))"
    by (simp add: filter_map comp_def case_prod_beta)
  also have "\<dots> = map (\<lambda>(j, cs'). (j, (n, take (j - i) (drop i s)) # cs')) (filter ?Q (rx_results fl (s @ t) a (i, cs)))"
    by (rule map_cong) (auto)
  finally show ?case using A by simp
next
  case (Backref n)
  then show ?case by (auto split: option.splits simp: take_all_iff)
next
  case Bol
  then show ?case by (auto simp: nth_append)
next
  case Eol
  then show ?case by simp
qed


lemma star_results_shift:
  "star_results fl (p @ s) k (length p + i, cs) =
   map (\<lambda>st. (length p + fst st, snd st)) (star_results fl s k (i, cs))"
proof (induction fl s k "(i, cs)" arbitrary: i rule: star_results.induct)
  case (1 fl s k i)
  have e: "(p @ s) ! (length p + i) = s ! i" by simp
  show ?case
  proof (cases "i < length s \<and> cls_mem fl k (s ! i)")
    case True
    have "star_results fl (p @ s) k (length p + Suc i, cs) =
          map (\<lambda>st. (length p + fst st, snd st)) (star_results fl s k (Suc i, cs))"
      using "1.hyps"[OF True] .
    then show ?thesis using True e
      by (subst star_results.simps, subst (2) star_results.simps) simp
  next
    case False
    then show ?thesis using e
      by (subst star_results.simps, subst (2) star_results.simps) auto
  qed
qed

lemma rx_results_shift:
  "no_bol r \<Longrightarrow>
   rx_results fl (p @ s) r (length p + i, cs) =
   map (\<lambda>st. (length p + fst st, snd st)) (rx_results fl s r (i, cs))"
proof (induction r arbitrary: i cs)
  case (Str w)
  then show ?case by simp
next
  case (Atom k)
  then show ?case by simp
next
  case (Star k)
  then show ?case by (simp add: star_results_shift)
next
  case (Seq a b)
  have B: "rx_results fl (p @ s) b (length p + fst x, snd x) =
             map (\<lambda>st. (length p + fst st, snd st)) (rx_results fl s b x)" for x
    using Seq.IH(2)[of "fst x" "snd x"] Seq.prems by simp
  show ?case using Seq.IH(1)[of i cs] Seq.prems
    by (simp add: map_concat comp_def B)
next
  case (Opt a)
  then show ?case by (simp add: filter_map comp_def)
next
  case (Group n a)
  then show ?case by (simp add: comp_def case_prod_beta)
next
  case (Backref n)
  then show ?case by (simp split: option.splits)
next
  case Bol
  then show ?case by simp
next
  case Eol
  then show ?case by simp
qed

lemma find_Some_mem: "find P xs = Some x \<Longrightarrow> P x \<and> x \<in> set xs"
  by (induction xs) (auto split: if_splits)

lemma rx_exec_SomeD:
  assumes "rx_exec fl r s = Some (i, j, c)"
  shows "i \<le> j \<and> j \<le> length s \<and> (\<exists>xs. rx_results fl s r (i, []) = (j, c) # xs)"
proof -
  from assms obtain i' where f: "find (\<lambda>i. rx_results fl s r (i, []) \<noteq> []) [0 ..< Suc (length s)] = Some i'"
    and e: "(i, j, c) = (i', hd (rx_results fl s r (i', [])))"
    by (auto simp: rx_exec_def split: option.splits)
  from f have ne: "rx_results fl s r (i', []) \<noteq> []" and "i' \<in> set [0 ..< Suc (length s)]"
    by (auto dest: find_Some_mem simp del: upt_Suc)
  then have il: "i' \<le> length s" by auto
  from e ne have h: "rx_results fl s r (i, []) = (j, c) # tl (rx_results fl s r (i, []))"
    by (cases "rx_results fl s r (i', [])") auto
  then have "(j, c) \<in> set (rx_results fl s r (i, []))"
    by (metis list.set_intros(1))
  from rx_results_mem[OF this] il e h show ?thesis by auto
qed

lemma rx_exec_at_0:
  assumes "rx_results fl s r (0, []) = (j, c) # xs"
  shows "rx_exec fl r s = Some (0, j, c)"
proof -
  have "find (\<lambda>i. rx_results fl s r (i, []) \<noteq> []) [0 ..< Suc (length s)] = Some 0"
    using assms by (simp add: upt_rec)
  then show ?thesis using assms by (simp add: rx_exec_def)
qed

lemma rx_exec_matched:
  assumes ne: "no_eol r" and nb: "no_bol r" and ex: "rx_exec fl r b = Some m"
  shows "rx_exec fl r (matched b m) = Some (0, length (matched b m), snd (snd m))"
proof -
  obtain i j c where m: "m = (i, j, c)" by (cases m) auto
  from rx_exec_SomeD[OF ex[unfolded m]] obtain xs where
    ij: "i \<le> j" and jl: "j \<le> length b" and res: "rx_results fl b r (i, []) = (j, c) # xs"
    by auto
  define pre where "pre = take i b"
  define mid where "mid = take (j - i) (drop i b)"
  define post where "post = drop j b"
  have lp: "length pre = i" using ij jl by (simp add: pre_def)
  have lm: "length mid = j - i" using ij jl by (simp add: mid_def)
  have "drop (j - i) (drop i b) = post"
    using ij by (simp add: post_def)
  then have "drop i b = mid @ post"
    unfolding mid_def by (metis append_take_drop_id)
  then have b: "b = pre @ (mid @ post)"
    unfolding pre_def by (metis append_take_drop_id)
  have "rx_results fl (pre @ (mid @ post)) r (length pre + 0, []) =
        map (\<lambda>st. (length pre + fst st, snd st)) (rx_results fl (mid @ post) r (0, []))"
    by (rule rx_results_shift[OF nb])
  with res b lp have "map (\<lambda>st. (i + fst st, snd st)) (rx_results fl (mid @ post) r (0, [])) = (j, c) # xs"
    by simp
  then obtain y ys where y: "rx_results fl (mid @ post) r (0, []) = y # ys"
    and yj: "i + fst y = j" and yc: "snd y = c"
    by (cases "rx_results fl (mid @ post) r (0, [])") auto
  have "filter (\<lambda>st. fst st \<le> length mid) (rx_results fl (mid @ post) r (0, [])) =
        rx_results fl mid r (0, [])"
    by (rule rx_results_append[OF ne]) simp
  with y yj lm have "rx_results fl mid r (0, []) = y # filter (\<lambda>st. fst st \<le> length mid) ys"
    by auto
  moreover have "y = (length mid, c)" using yj yc lm by (cases y) auto
  ultimately have "rx_exec fl r mid = Some (0, length mid, c)"
    using rx_exec_at_0 by simp
  then show ?thesis by (simp add: m matched_def mid_def)
qed

section \<open>Case folding and the classes of the patterns\<close>



lemma cls_any: "cls_mem fl (Class False [NonSpace, Space]) c"
  by (simp add: cls_mem_def)


lemma of_char_canonicalize:
  "(of_char (canonicalize c) :: nat) =
     (if is_lower_n (of_char c) then of_char c - 32 else of_char c)"
proof -
  have l: "(of_char c :: nat) < 256" by simp
  have "(of_char (char_of (of_char c - 32 :: nat) :: char) :: nat) = (of_char c - 32) mod 256"
    by (simp only: of_char_of)
  also have "\<dots> = of_char c - 32"
  proof -
    have "n < 256 \<Longrightarrow> (n - 32) mod 256 = n - 32" for n :: nat by simp
    from this[OF l] show ?thesis .
  qed
  finally have e: "(of_char (char_of (of_char c - 32 :: nat) :: char) :: nat) = of_char c - 32" .
  show ?thesis
    unfolding canonicalize_def Let_def is_lower_n_def
    by (simp only: e if_distrib[of of_char] cong: if_cong)
qed

lemma of_char_to_lower:
  "(of_char (to_lower c) :: nat) =
     (if is_upper_n (of_char c) then of_char c + 32 else of_char c)"
proof -
  have l: "(of_char c :: nat) < 256" by simp
  have m: "is_upper_n n \<Longrightarrow> (n + 32) mod 256 = n + 32" for n :: nat
    by (auto simp: is_upper_n_def)
  have e: "is_upper_n (of_char c) \<Longrightarrow>
      (of_char (char_of (of_char c + 32 :: nat) :: char) :: nat) = of_char c + 32"
    by (simp only: of_char_of m)
  show ?thesis
  proof (cases "is_upper_n (of_char c)")
    case True
    then have "to_lower c = char_of (of_char c + 32 :: nat)"
      unfolding to_lower_def Let_def is_upper_n_def by (simp only: if_True)
    with True e show ?thesis by simp
  next
    case False
    then have "to_lower c = c"
      unfolding to_lower_def Let_def is_upper_n_def by (simp only: if_False)
    with False show ?thesis by simp
  qed
qed

lemma canonical_class:
  "canonicalize a = canonicalize c \<longleftrightarrow> a = c \<or> a = canonicalize c \<or> a = to_lower c"
proof -
  have "canonicalize a = canonicalize c \<longleftrightarrow>
        (of_char (canonicalize a) :: nat) = of_char (canonicalize c)" by simp
  moreover have "a = c \<longleftrightarrow> (of_char a :: nat) = of_char c" by simp
  moreover have "a = canonicalize c \<longleftrightarrow> (of_char a :: nat) = of_char (canonicalize c)" by simp
  moreover have "a = to_lower c \<longleftrightarrow> (of_char a :: nat) = of_char (to_lower c)" by simp
  moreover have "((if is_lower_n x then x - 32 else x) = (if is_lower_n y then y - 32 else y)) \<longleftrightarrow>
        x = y \<or> x = (if is_lower_n y then y - 32 else y) \<or> x = (if is_upper_n y then y + 32 else y)"
    for x y :: nat
    unfolding is_lower_n_def is_upper_n_def by (auto split: if_splits)
  ultimately show ?thesis
    by (simp only: of_char_canonicalize of_char_to_lower)
qed

lemma cls_mem_canonical:
  "cls_mem fl (Class neg items) c \<longleftrightarrow>
     neg \<noteq> (\<exists>a. list_ex (\<lambda>it. item_mem it a) items \<and> char_eq fl a c)"
proof (cases "ignoreCase fl")
  case True
  have "(\<exists>a. list_ex (\<lambda>it. item_mem it a) items \<and> canonicalize a = canonicalize c) \<longleftrightarrow>
        list_ex (\<lambda>it. item_mem it c \<or> item_mem it (canonicalize c) \<or> item_mem it (to_lower c)) items"
    unfolding canonical_class list_ex_iff by blast
  with True show ?thesis by (simp add: cls_mem_def char_eq_def)
next
  case False
  then show ?thesis by (simp add: cls_mem_def char_eq_def)
qed

section \<open>The list of results and the backtracking matcher\<close>

lemma first_some_single: "first_some k [x] = k x"
  by (simp split: option.splits)

lemma first_some_append:
  "first_some k (xs @ ys) = (case first_some k xs of Some r \<Rightarrow> Some r | None \<Rightarrow> first_some k ys)"
  by (induction xs) (auto split: option.splits)

lemma first_some_concat_map:
  "first_some k (concat (map f xs)) = first_some (\<lambda>x. first_some k (f x)) xs"
  by (induction xs) (auto simp: first_some_append split: option.splits)

lemma first_some_map: "first_some k (map f xs) = first_some (\<lambda>x. k (f x)) xs"
  by (induction xs) (auto split: option.splits)

lemma first_some_filter:
  "first_some k (filter P xs) = first_some (\<lambda>x. if P x then k x else None) xs"
  by (induction xs) (auto split: option.splits)

lemma star_match_results:
  "star_match fl s k (i, cs) c = first_some c (star_results fl s k (i, cs))"
proof (induction fl s k "(i, cs)" arbitrary: i rule: star_results.induct)
  case (1 fl s k i)
  show ?case
  proof (cases "i < length s \<and> cls_mem fl k (s ! i)")
    case True
    with "1.hyps"[OF True] show ?thesis
      by (subst star_match.simps, subst star_results.simps)
         (simp add: first_some_append first_some_single del: first_some.simps(2) split: option.splits)
  next
    case False
    then show ?thesis
      by (subst star_match.simps, subst star_results.simps)
         (auto simp: first_some_single simp del: first_some.simps(2))
  qed
qed

lemma rx_match_results:
  "rx_match fl s r st c = first_some c (rx_results fl s r st)"
proof (induction r arbitrary: st c)
  case (Str w) then show ?case by (cases st) (simp add: first_some_single del: first_some.simps(2))
next
  case (Atom k) then show ?case by (cases st) (simp add: first_some_single del: first_some.simps(2))
next
  case (Star k) then show ?case by (cases st) (simp add: star_match_results)
next
  case (Seq a b)
  then show ?case by (cases st) (simp add: first_some_concat_map)
next
  case (Opt a)
  have "(\<lambda>st'. if fst st' = i then None else c st') = (\<lambda>x. if fst x \<noteq> i then c x else None)" for i
    by auto
  with Opt show ?case
    by (cases st) (simp add: first_some_append first_some_filter first_some_single del: first_some.simps(2) split: option.splits)
next
  case (Group n a)
  then show ?case by (cases st) (simp add: first_some_map case_prod_beta)
next
  case (Backref n) then show ?case by (cases st) (simp add: first_some_single del: first_some.simps(2) split: option.splits)
next
  case Bol then show ?case by (cases st) (simp add: first_some_single del: first_some.simps(2))
next
  case Eol then show ?case by (cases st) (simp add: first_some_single del: first_some.simps(2))
qed

lemma rx_exec_backtracking:
  "rx_exec fl r s =
     first_some (\<lambda>i. rx_match fl s r (i, []) (\<lambda>st. Some (i, st))) [0 ..< Suc (length s)]"
proof -
  have "first_some (\<lambda>st. Some (i, st)) xs = (case xs of [] \<Rightarrow> None | x # _ \<Rightarrow> Some (i, x))" for i :: nat and xs :: "mstate list"
    by (cases xs) auto
  moreover have "(case find P is of None \<Rightarrow> None | Some i \<Rightarrow> Some (i, hd (f i))) =
        first_some (\<lambda>i. case f i of [] \<Rightarrow> None | x # _ \<Rightarrow> Some (i, x)) is"
    if "\<And>i. P i \<longleftrightarrow> f i \<noteq> []" for P and f :: "nat \<Rightarrow> mstate list" and "is"
    using that by (induction "is") (auto split: list.splits)
  ultimately show ?thesis
    unfolding rx_exec_def rx_match_results by simp
qed

section \<open>The boundary pattern\<close>

lemma rx_exec_None_iff:
  "rx_exec fl r s = None \<longleftrightarrow> (\<forall>i \<le> length s. rx_results fl s r (i, []) = [])"
proof -
  have "rx_exec fl r s = None \<longleftrightarrow>
        find (\<lambda>i. rx_results fl s r (i, []) \<noteq> []) [0 ..< Suc (length s)] = None"
    by (simp add: rx_exec_def split: option.splits)
  also have "\<dots> \<longleftrightarrow> (\<forall>i \<in> set [0 ..< Suc (length s)]. rx_results fl s r (i, []) = [])"
    by (simp only: find_None_iff) blast
  also have "\<dots> \<longleftrightarrow> (\<forall>i \<le> length s. rx_results fl s r (i, []) = [])"
    by (auto simp del: upt_Suc simp: less_Suc_eq_le)
  finally show ?thesis .
qed




lemma bou_occurs:
  assumes "\<not> occurs_ci ''boundary='' h"
  shows "rx_exec bou_flags bou_regex h = None"
proof -
  have "rx_results bou_flags h bou_regex (i, []) = []" if "i \<le> length h" for i
  proof -
    have "\<not> list_all2 (\<lambda>a b. canonicalize a = canonicalize b) ''boundary='' (substr h i (length ''boundary=''))"
      using assms that unfolding occurs_ci_def list_ex_iff by (auto simp del: upt_Suc)
    moreover have "char_eq bou_flags = (\<lambda>a b. canonicalize a = canonicalize b)"
      by (simp add: fun_eq_iff char_eq_def bou_flags_def)
    ultimately have "rx_results bou_flags h (Str ''boundary='') (i, []) = []"
      by (simp add: substr_def)
    then show ?thesis by (simp add: bou_regex_def del: rx_results.simps(1))
  qed
  then show ?thesis by (simp add: rx_exec_None_iff)
qed

lemma id_regex_single: "rx_exec id_flags id_regex [c] = None"
  by (simp add: rx_exec_None_iff id_regex_def le_Suc_eq)

lemma handle_parts_single: "handle_parts b (map (\<lambda>c. [c]) cs) = Inr b"
  by (induction cs) (simp_all add: handle_part_def id_regex_single)

section \<open>The greedy star and the closing tag of the envelope pattern\<close>

lemma star_any_mem:
  "i \<le> m \<Longrightarrow> m \<le> length s \<Longrightarrow>
   (m, cs) \<in> set (star_results fl s (Class False [NonSpace, Space]) (i, cs))"
proof (induction fl s "Class False [NonSpace, Space]" "(i, cs)" arbitrary: i rule: star_results.induct)
  case (1 fl s i)
  show ?case
  proof (cases "i < length s")
    case True
    then have c: "i < length s \<and> cls_mem fl (Class False [NonSpace, Space]) (s ! i)"
      by (simp add: cls_any)
    show ?thesis
    proof (cases "m = i")
      case True
      then show ?thesis by (subst star_results.simps) simp
    next
      case False
      with "1.prems" have "Suc i \<le> m" by simp
      from "1.hyps"[OF c this "1.prems"(2)] c show ?thesis
        by (subst star_results.simps) simp
    qed
  next
    case False
    with "1.prems" have "m = i" by simp
    then show ?thesis by (subst star_results.simps) simp
  qed
qed

lemma concat_map_hd:
  "concat (map f xs) = y # ys \<Longrightarrow> \<exists>x \<in> set xs. \<exists>zs. f x = y # zs"
proof (induction xs)
  case Nil
  then show ?case by simp
next
  case (Cons x xs)
  then show ?case by (cases "f x") auto
qed

lemma star_greedy:
  assumes "concat (map f (star_results fl s k (i, cs))) = y # ys"
  shows "\<exists>m zs. i \<le> m \<and> f (m, cs) = y # zs \<and>
           (\<forall>m'. m < m' \<and> (m', cs) \<in> set (star_results fl s k (i, cs)) \<longrightarrow> f (m', cs) = [])"
  using assms
proof (induction fl s k "(i, cs)" arbitrary: i ys rule: star_results.induct)
  case (1 fl s k i)
  show ?case
  proof (cases "i < length s \<and> cls_mem fl k (s ! i)")
    case True
    then have u: "star_results fl s k (i, cs) = star_results fl s k (Suc i, cs) @ [(i, cs)]"
      by (subst star_results.simps) simp
    show ?thesis
    proof (cases "concat (map f (star_results fl s k (Suc i, cs)))")
      case Nil
      with "1.prems" u have fi: "f (i, cs) = y # ys" by simp
      have "f (m', cs) = []" if "i < m'" "(m', cs) \<in> set (star_results fl s k (i, cs))" for m'
      proof -
        from that u have "(m', cs) \<in> set (star_results fl s k (Suc i, cs))" by auto
        with Nil show ?thesis by auto
      qed
      with fi show ?thesis by blast
    next
      case (Cons a as)
      with "1.prems" u have ay: "a = y" by simp
      from "1.hyps"[OF True Cons[unfolded ay]] obtain m zs where
        m: "Suc i \<le> m" "f (m, cs) = y # zs"
        "\<forall>m'. m < m' \<and> (m', cs) \<in> set (star_results fl s k (Suc i, cs)) \<longrightarrow> f (m', cs) = []"
        by blast
      have "f (m', cs) = []" if "m < m'" "(m', cs) \<in> set (star_results fl s k (i, cs))" for m'
      proof -
        from that u m(1) have "(m', cs) \<in> set (star_results fl s k (Suc i, cs))" by auto
        with m(3) that(1) show ?thesis by blast
      qed
      with m(1,2) show ?thesis by (meson Suc_leD)
    qed
  next
    case False
    then have u: "star_results fl s k (i, cs) = [(i, cs)]"
      by (subst star_results.simps) auto
    with "1.prems" have "f (i, cs) = y # ys" by simp
    moreover have "\<forall>m'. i < m' \<and> (m', cs) \<in> set (star_results fl s k (i, cs)) \<longrightarrow> f (m', cs) = []"
      using u by simp
    ultimately show ?thesis by blast
  qed
qed


lemma list_all2_append_take:
  "list_all2 P (xs @ ys) (take (length xs + n) (drop q s)) \<longleftrightarrow>
   list_all2 P xs (take (length xs) (drop q s)) \<and> list_all2 P ys (take n (drop (q + length xs) s))"
proof -
  have "take (length xs + n) (drop q s) =
        take (length xs) (drop q s) @ take n (drop (length xs) (drop q s))"
    by (rule take_add)
  moreover have "drop (length xs) (drop q s) = drop (q + length xs) s"
    by (simp add: add.commute)
  ultimately have e: "take (length xs + n) (drop q s) =
        take (length xs) (drop q s) @ take n (drop (q + length xs) s)"
    by simp
  show ?thesis
  proof (cases "length (take (length xs) (drop q s)) = length xs")
    case True
    then show ?thesis unfolding e by (simp add: list_all2_append)
  next
    case False
    then have "length (drop q s) < length xs" by simp
    then have "\<not> list_all2 P (xs @ ys) (take (length xs + n) (drop q s))"
      "\<not> list_all2 P xs (take (length xs) (drop q s))"
      by (auto dest!: list_all2_lengthD)
    then show ?thesis by simp
  qed
qed

lemma list_all2_take_bound:
  "list_all2 P w (take (length w) (drop i s)) \<Longrightarrow> i \<le> length s \<Longrightarrow> i + length w \<le> length s"
  by (drule list_all2_lengthD) simp

lemma list_all2_take_bound':
  "list_all2 P w (take (length w) (drop i s)) \<Longrightarrow> w \<noteq> [] \<Longrightarrow> i + length w \<le> length s"
  by (drule list_all2_lengthD) (cases w, auto)

lemma Str_results:
  "w \<noteq> [] \<Longrightarrow> rx_results fl s (Str w) (i, cs) =
     (if list_all2 (char_eq fl) w (take (length w) (drop i s)) then [(i + length w, cs)] else [])"
  using list_all2_take_bound'[of "char_eq fl" w i s] by auto

lemma close_results:
  assumes "map_of cs 1 = Some p"
  shows "rx_results env_flags b (Seq (Str ''</'') (Seq (Backref 1) (Str '':Envelope>''))) (q, cs) =
         (if is_closing_tag p (substr b q (length p + 12)) then [(q + (length p + 12), cs)] else [])"
proof -
  let ?P = "char_eq env_flags"
  let ?o = "''</''"
  let ?e = "'':Envelope>''"
  let ?A = "list_all2 ?P ?o (take (length ?o) (drop q b))"
  let ?B = "list_all2 ?P p (take (length p) (drop (q + length ?o) b))"
  let ?C = "list_all2 ?P ?e (take (length ?e) (drop (q + length ?o + length p) b))"
  have 1: "is_closing_tag p (substr b q (length p + 12)) \<longleftrightarrow> ?A \<and> ?B \<and> ?C"
  proof -
    have "length p + 12 = length ?o + (length p + length ?e)" by simp
    then have "is_closing_tag p (substr b q (length p + 12)) \<longleftrightarrow>
          list_all2 ?P (?o @ (p @ ?e)) (take (length ?o + (length p + length ?e)) (drop q b))"
      by (simp only: is_closing_tag_def substr_def)
    also have "\<dots> \<longleftrightarrow> ?A \<and>
          list_all2 ?P (p @ ?e) (take (length p + length ?e) (drop (q + length ?o) b))"
      by (rule list_all2_append_take)
    also have "list_all2 ?P (p @ ?e) (take (length p + length ?e) (drop (q + length ?o) b)) \<longleftrightarrow>
          ?B \<and> ?C"
      by (rule list_all2_append_take)
    finally show ?thesis .
  qed
  have so: "rx_results env_flags b (Str ?o) (q, cs) = (if ?A then [(q + length ?o, cs)] else [])"
    by (rule Str_results) simp
  have se: "rx_results env_flags b (Str ?e) (q + length ?o + length p, cs) =
        (if ?C then [(q + length ?o + length p + length ?e, cs)] else [])"
    by (rule Str_results) simp
  have sb: "rx_results env_flags b (Backref 1) (q + length ?o, cs) =
        (if ?B then [(q + length ?o + length p, cs)] else [])" if ?A
  proof -
    from that have "q + length ?o \<le> length b" by (rule list_all2_take_bound') simp
    then show ?thesis
      using assms list_all2_take_bound[of ?P p "q + length ?o" b]
      by (simp only: rx_results.simps) auto
  qed
  have l: "q + length ?o + length p + length ?e = q + (length p + 12)" by simp
  let ?R = "Seq (Backref 1) (Str ?e)"
  have seq: "rx_results env_flags b (Seq x y) st =
             concat (map (rx_results env_flags b y) (rx_results env_flags b x st))" for x y st
    by (rule rx_results.simps)
  show ?thesis
  proof (cases ?A)
    case False
    then have "rx_results env_flags b (Seq (Str ?o) ?R) (q, cs) = []"
      by (simp only: seq[of "Str ?o"] so if_False) simp
    with False 1 show ?thesis by simp
  next
    case A: True
    then have a: "rx_results env_flags b (Seq (Str ?o) ?R) (q, cs) =
                  rx_results env_flags b ?R (q + length ?o, cs)"
      by (simp only: seq[of "Str ?o"] so if_True) (simp del: rx_results.simps)
    show ?thesis
    proof (cases ?B)
      case False
      then have "rx_results env_flags b ?R (q + length ?o, cs) = []"
        by (simp only: seq[of "Backref 1"] sb[OF A] if_False) simp
      with a False 1 show ?thesis by simp
    next
      case B: True
      then have "rx_results env_flags b ?R (q + length ?o, cs) =
                 rx_results env_flags b (Str ?e) (q + length ?o + length p, cs)"
        by (simp only: seq[of "Backref 1"] sb[OF A] if_True) (simp del: rx_results.simps)
      also have "\<dots> = (if ?C then [(q + (length p + 12), cs)] else [])"
        by (simp only: se l)
      finally show ?thesis using a A B 1 by simp
    qed
  qed
qed

lemma not_closing_tag_Nil: "\<not> is_closing_tag p []"
  by (simp add: is_closing_tag_def)

lemma seq_hd:
  "rx_results fl s (Seq a b) st = y # ys \<Longrightarrow>
   \<exists>st' \<in> set (rx_results fl s a st). \<exists>zs. rx_results fl s b st' = y # zs"
  by (simp only: rx_results.simps) (rule concat_map_hd)

lemma envelope_last_close:
  assumes "rx_exec env_flags env_regex body = Some (i, j, cs)"
  shows "\<exists>p. map_of cs 1 = Some p \<and> length p + 12 \<le> j \<and>
           is_closing_tag p (substr body (j - (length p + 12)) (length p + 12)) \<and>
           (\<forall>q. j - (length p + 12) < q \<longrightarrow> \<not> is_closing_tag p (substr body q (length p + 12)))"
proof -
  let ?any = "Class False [NonSpace, Space]"
  let ?close = "Seq (Str ''</'') (Seq (Backref 1) (Str '':Envelope>''))"
  let ?r4 = "Seq (Group 2 (Star ?any)) ?close"
  let ?r3 = "Seq (Str '':Envelope'') ?r4"
  let ?g1 = "Group 1 (Star (Class True [Ch (CHR '':'')]))"
  let ?r2 = "Seq ?g1 ?r3"
  let ?r1 = "Seq (Str ''<'') ?r2"
  let ?res = "rx_results env_flags body"
  have seq: "?res (Seq x y) st = concat (map (?res y) (?res x st))" for x y st
    by (rule rx_results.simps)
  from rx_exec_SomeD[OF assms] obtain xs where
    "?res env_regex (i, []) = (j, cs) # xs" by auto
  then have "\<exists>d. ?res (Seq d ?r1) (i, []) = (j, cs) # xs"
    unfolding env_regex_def by blast
  then obtain d where "?res (Seq d ?r1) (i, []) = (j, cs) # xs" ..
  from seq_hd[OF this] obtain s1 z1 where "?res ?r1 s1 = (j, cs) # z1"
    by blast
  from seq_hd[OF this] obtain s2 z2 where "?res ?r2 s2 = (j, cs) # z2"
    by blast
  from seq_hd[OF this] obtain s3 z3 where m3: "s3 \<in> set (?res ?g1 s2)"
    and "?res ?r3 s3 = (j, cs) # z3"
    by blast
  from seq_hd[OF this(2)] obtain s4 z4 where m4: "s4 \<in> set (?res (Str '':Envelope'') s3)"
    and r4: "?res ?r4 s4 = (j, cs) # z4"
    by blast
  from m3 obtain p where p3: "map_of (snd s3) 1 = Some p"
    by (cases s2) auto
  from m4 have "snd s4 = snd s3"
    by (cases s3) (auto split: if_splits)
  with p3 obtain k c4 where s4: "s4 = (k, c4)" and p4: "map_of c4 1 = Some p"
    by (cases s4) auto
  define g where "g = (\<lambda>st :: mstate. (fst st, (2, take (fst st - k) (drop k body)) # snd st))"
  define f where "f = (\<lambda>st. ?res ?close (g st))"
  have "?res (Group 2 (Star ?any)) (k, c4) = map g (star_results env_flags body ?any (k, c4))"
    by (simp add: g_def case_prod_beta)
  then have "?res ?r4 (k, c4) = concat (map f (star_results env_flags body ?any (k, c4)))"
    by (simp only: seq f_def map_map comp_def)
  with r4 s4 have "concat (map f (star_results env_flags body ?any (k, c4))) = (j, cs) # z4"
    by simp
  from star_greedy[OF this] obtain m zs where km: "k \<le> m" and fm: "f (m, c4) = (j, cs) # zs"
    and gr: "\<forall>m'. m < m' \<and> (m', c4) \<in> set (star_results env_flags body ?any (k, c4)) \<longrightarrow> f (m', c4) = []"
    by blast
  have fq: "f (q, c4) = (if is_closing_tag p (substr body q (length p + 12))
                        then [(q + (length p + 12), snd (g (q, c4)))] else [])" for q
  proof -
    have "map_of (snd (g (q, c4))) 1 = Some p" using p4 by (simp add: g_def)
    then have "?res ?close (q, snd (g (q, c4))) =
          (if is_closing_tag p (substr body q (length p + 12))
           then [(q + (length p + 12), snd (g (q, c4)))] else [])"
      by (rule close_results)
    moreover have "g (q, c4) = (q, snd (g (q, c4)))" by (simp add: g_def)
    ultimately show ?thesis by (simp only: f_def)
  qed
  from fm have cm: "is_closing_tag p (substr body m (length p + 12))"
    and j: "j = m + (length p + 12)" and cs: "cs = snd (g (m, c4))"
    by (auto simp: fq split: if_splits)
  have "\<not> is_closing_tag p (substr body q (length p + 12))" if "m < q" for q
  proof (cases "q \<le> length body")
    case True
    with km that have "(q, c4) \<in> set (star_results env_flags body ?any (k, c4))"
      by (intro star_any_mem) auto
    with gr that have "f (q, c4) = []" by blast
    then show ?thesis by (simp add: fq split: if_splits)
  next
    case False
    then have "substr body q (length p + 12) = []" by (simp add: substr_def)
    then show ?thesis by (simp add: not_closing_tag_Nil)
  qed
  moreover have "map_of cs 1 = Some p" using cs p4 by (simp add: g_def)
  ultimately show ?thesis using cm j by auto
qed

section \<open>Objects as association lists, and the request description\<close>

lemma map_of_alist_update: "map_of (alist_update k v ps) = (map_of ps)(k \<mapsto> v)"
  by (induction ps) (auto simp: fun_eq_iff)

lemma map_of_set_prop:
  "map_of (set_prop k v obj) k' =
     (if k' = k \<and> k \<noteq> ''__proto__'' then Some v else map_of obj k')"
  by (simp add: set_prop_def map_of_alist_update)

lemma map_of_foldl_other:
  "k \<notin> fst ` set kvs \<Longrightarrow>
   map_of (foldl (\<lambda>acc kv. set_prop (fst kv) (snd kv) acc) obj kvs) k = map_of obj k"
  by (induction kvs arbitrary: obj) (auto simp: map_of_set_prop)

lemma map_of_merge_other: "\<not> sets ex k \<Longrightarrow> map_of (merge obj ex) k = map_of obj k"
  by (auto simp: sets_def merge_def map_of_foldl_other split: option.splits)

lemma map_of_foldl_override:
  "distinct (map fst kvs) \<Longrightarrow> (k, v) \<in> set kvs \<Longrightarrow> k \<noteq> ''__proto__'' \<Longrightarrow>
   map_of (foldl (\<lambda>acc kv. set_prop (fst kv) (snd kv) acc) obj kvs) k = Some v"
proof (induction kvs arbitrary: obj)
  case Nil
  then show ?case by simp
next
  case (Cons a kvs)
  show ?case
  proof (cases "(k, v) = a")
    case True
    with Cons.prems have "k \<notin> fst ` set kvs" by (auto simp: image_iff)
    then show ?thesis using True Cons.prems(3)
      by (auto simp: map_of_foldl_other map_of_set_prop)
  next
    case False
    with Cons show ?thesis by auto
  qed
qed

lemma map_of_merge_override:
  "distinct (map fst kvs) \<Longrightarrow> (k, v) \<in> set kvs \<Longrightarrow> k \<noteq> ''__proto__'' \<Longrightarrow>
   map_of (merge obj (Some kvs)) k = Some v"
  by (simp add: merge_def map_of_foldl_override)

lemma buildRequest_method:
  "\<not> sets exoptions ''method'' \<Longrightarrow>
   method_of (buildRequest url_parse VERSION rurl dat exheaders exoptions) =
     Some (OStr (if truthy dat then ''POST'' else ''GET''))"
  by (simp add: method_of_def buildRequest_def Let_def map_of_merge_other map_of_set_prop)

lemma buildRequest_headers:
  "\<not> sets exoptions ''headers'' \<Longrightarrow>
   header_of (buildRequest url_parse VERSION rurl dat exheaders exoptions) k =
     map_of (build_headers (url_parse rurl) VERSION dat exheaders) k"
  by (simp add: header_of_def buildRequest_def Let_def map_of_merge_other map_of_set_prop)

lemma buildRequest_body:
  "\<not> sets exoptions ''body'' \<Longrightarrow>
   map_of (build_headers (url_parse rurl) VERSION dat exheaders) ''Connection'' =
     Some (HStr ''keep-alive'') \<Longrightarrow>
   map_of (buildRequest url_parse VERSION rurl dat exheaders exoptions) ''body'' =
     Some (OPayload dat)"
  by (simp add: buildRequest_def Let_def map_of_merge_other map_of_set_prop)

lemma build_headers_override:
  "distinct (map fst exh) \<Longrightarrow> (k, v) \<in> set exh \<Longrightarrow> k \<noteq> ''__proto__'' \<Longrightarrow>
   map_of (build_headers curl VERSION dat (Some exh)) k = Some v"
  by (simp add: build_headers_def Let_def map_of_merge_override)

lemma build_headers_Host:
  "\<not> sets exheaders ''Host'' \<Longrightarrow>
   map_of (build_headers curl VERSION dat exheaders) ''Host'' =
     Some (HStr (null_text (hostname curl) @
       (case parseInt10 (null_text (port curl)) of None \<Rightarrow> [] | Some n \<Rightarrow> '':'' @ number_text n)))"
  by (cases dat) (simp_all add: build_headers_def Let_def map_of_merge_other map_of_set_prop)

lemma host_example:
  "null_text (Some ''h'') @
     (case parseInt10 (null_text (Some ''8080'')) of None \<Rightarrow> [] | Some n \<Rightarrow> '':'' @ number_text n)
   = ''h:8080''"
  by (simp add: null_text_def parseInt10_def is_space_def is_digit_def digits_value_def
      number_text_def dec.simps digit_char_def)

section \<open>handleBinaries without a boundary, without a reference, with an empty boundary\<close>

lemma handleBinaries_no_boundary:
  "rx_exec bou_flags bou_regex (header_text (map_of (headers res) ''content-type'')) = None \<Longrightarrow>
   handleBinaries res body = Inr (res\<lparr>res_binaries := Some []\<rparr>)"
  by (simp add: handleBinaries_def)

lemma handleBinaries_no_include:
  "rx_exec inc_flags inc_regex body = None \<Longrightarrow>
   handleBinaries res body = Inr (res\<lparr>res_binaries := Some []\<rparr>)"
  by (simp add: handleBinaries_def split: option.splits)

lemma handleBinaries_shape:
  "handleBinaries res body = Inr r \<Longrightarrow> \<exists>b. r = res\<lparr>res_binaries := Some b\<rparr>"
  by (auto simp: handleBinaries_def Let_def split: option.splits sum.splits)

lemma handleBinaries_empty_boundary:
  assumes "rx_exec bou_flags bou_regex (header_text (map_of (headers res) ''content-type'')) = Some bm"
    and "capture bm 1 = Some []"
  shows "handleBinaries res body =
         Inr (res\<lparr>res_binaries := Some (case rx_exec inc_flags inc_regex body of
                                          None \<Rightarrow> [] | Some m \<Rightarrow> seed [capture m 1] [])\<rparr>)"
proof (cases "rx_exec inc_flags inc_regex body")
  case None
  then show ?thesis by (simp add: handleBinaries_no_include)
next
  case (Some m)
  have "tl (split body []) = map (\<lambda>c. [c]) (tl body)"
    by (simp add: split_def map_tl)
  moreover have "[1 ..< 2] = [1::nat]" by (simp add: upt_rec)
  ultimately show ?thesis using assms Some
    by (simp add: handleBinaries_def Let_def handle_parts_single)
qed

text \<open>
  The loop over the parts keeps the number of entries, and the seeding makes one entry
  at most: the map that \<open>handleBinaries\<close> returns never has two entries.  A part whose
  \<open>Content-Id\<close> names neither an entry nor a property of \<open>Object.prototype\<close> makes
  the loop throw.
\<close>

lemma length_alist_update:
  "map_of ps k = Some a \<Longrightarrow> length (alist_update k v ps) = length ps"
  by (induction ps) (auto split: if_splits)

lemma set_field_length: "set_field b binId upd = Inr b' \<Longrightarrow> length b' = length b"
  by (auto simp: set_field_def length_alist_update split: option.splits if_splits)

lemma handle_part_length: "handle_part b part = Inr b' \<Longrightarrow> length b' = length b"
  by (auto simp: handle_part_def Let_def split: option.splits sum.splits dest!: set_field_length)

lemma handle_parts_length: "handle_parts b parts = Inr b' \<Longrightarrow> length b' = length b"
  by (induction parts arbitrary: b) (auto split: sum.splits dest!: handle_part_length)

lemma handleBinaries_at_most_one:
  assumes "handleBinaries res body = Inr r"
  shows "\<exists>b. res_binaries r = Some b \<and> length b \<le> 1"
proof -
  have s: "length (seed (map f [Suc 0 ..< 2]) []) \<le> Suc 0" for f :: "nat \<Rightarrow> string option"
    by (simp add: upt_rec set_prop_def)
  from assms show ?thesis
    using s by (auto simp: handleBinaries_def Let_def simp del: seed.simps
        split: option.splits sum.splits dest!: handle_parts_length)
qed

lemma handle_part_throws:
  assumes "rx_exec id_flags id_regex part = Some im"
    and "map_of b (prop_name (capture im 1)) = None"
    and "prop_name (capture im 1) \<notin> set object_prototype_names"
  shows "handle_part b part = Inl TypeError"
  using assms
  by (simp add: handle_part_def Let_def set_field_def split: option.splits)

section \<open>Properties of buildRequest\<close>

text \<open>
  C8, as the code has it.  For every URL, extra headers and extra options that do not
  themselves name \<open>method\<close>, the method of the request is \<open>GET\<close> when the payload is
  \<open>null\<close>, absent or the empty string and \<open>POST\<close> for every other payload.  When
  \<open>url.parse\<close> gives the host name \<open>h\<close> and the port \<open>8080\<close> for
  \<open>http://h:8080/p\<close>, the payload is \<open>null\<close>, the extra headers do not name \<open>Host\<close>
  and the extra options name neither \<open>headers\<close> nor \<open>method\<close>, the method is \<open>GET\<close>
  and the \<open>Host\<close> header is \<open>h:8080\<close>.
\<close>

theorem buildRequest_method_and_host:
  "(\<not> sets exoptions ''method'' \<longrightarrow>
      method_of (buildRequest url_parse VERSION rurl dat exheaders exoptions) =
        Some (OStr (if dat = PNull \<or> dat = PUndefined \<or> dat = PStr [] then ''GET'' else ''POST''))) \<and>
   (hostname (url_parse ''http://h:8080/p'') = Some ''h'' \<and>
    port (url_parse ''http://h:8080/p'') = Some ''8080'' \<and>
    \<not> sets exheaders ''Host'' \<and> \<not> sets exoptions ''headers'' \<and> \<not> sets exoptions ''method'' \<longrightarrow>
      method_of (buildRequest url_parse VERSION ''http://h:8080/p'' PNull exheaders exoptions) =
        Some (OStr ''GET'') \<and>
      header_of (buildRequest url_parse VERSION ''http://h:8080/p'' PNull exheaders exoptions) ''Host'' =
        Some (HStr ''h:8080''))"
proof (intro conjI impI)
  assume "\<not> sets exoptions ''method''"
  then show "method_of (buildRequest url_parse VERSION rurl dat exheaders exoptions) =
        Some (OStr (if dat = PNull \<or> dat = PUndefined \<or> dat = PStr [] then ''GET'' else ''POST''))"
    by (cases dat) (simp_all add: buildRequest_method)
next
  assume a: "hostname (url_parse ''http://h:8080/p'') = Some ''h'' \<and>
    port (url_parse ''http://h:8080/p'') = Some ''8080'' \<and>
    \<not> sets exheaders ''Host'' \<and> \<not> sets exoptions ''headers'' \<and> \<not> sets exoptions ''method''"
  then show "method_of (buildRequest url_parse VERSION ''http://h:8080/p'' PNull exheaders exoptions) =
        Some (OStr ''GET'')"
    by (simp add: buildRequest_method)
  from a show "header_of (buildRequest url_parse VERSION ''http://h:8080/p'' PNull exheaders exoptions) ''Host'' =
        Some (HStr ''h:8080'')"
    using host_example
    by (simp add: buildRequest_headers build_headers_Host)
qed

text \<open>The theorem at the URL \<open>http://h:8080/p\<close>, without and with a payload.\<close>

theorem buildRequest_method_and_host_witness:
  "method_of (buildRequest
       (\<lambda>u. \<lparr>protocol = Some ''http:'', hostname = Some ''h'', port = Some ''8080'',
              pathname = Some ''/p'', search = None, hash = None\<rparr>)
       ''0.8.0'' ''http://h:8080/p'' PNull None None) = Some (OStr ''GET'') \<and>
   header_of (buildRequest
       (\<lambda>u. \<lparr>protocol = Some ''http:'', hostname = Some ''h'', port = Some ''8080'',
              pathname = Some ''/p'', search = None, hash = None\<rparr>)
       ''0.8.0'' ''http://h:8080/p'' PNull None None) ''Host'' = Some (HStr ''h:8080'') \<and>
   method_of (buildRequest
       (\<lambda>u. \<lparr>protocol = Some ''http:'', hostname = Some ''h'', port = Some ''8080'',
              pathname = Some ''/p'', search = None, hash = None\<rparr>)
       ''0.8.0'' ''http://h:8080/p'' (PStr ''<x/>'') None (Some [(''timeout'', ONum 5000)])) =
     Some (OStr ''POST'')"
  using buildRequest_method_and_host [of None "\<lambda>u. \<lparr>protocol = Some ''http:'', hostname = Some ''h'', port = Some ''8080'',
              pathname = Some ''/p'', search = None, hash = None\<rparr>" "''0.8.0''" "''http://h:8080/p''" PNull None]
    buildRequest_method_and_host [of "Some [(''timeout'', ONum 5000)]" "\<lambda>u. \<lparr>protocol = Some ''http:'', hostname = Some ''h'', port = Some ''8080'',
              pathname = Some ''/p'', search = None, hash = None\<rparr>" "''0.8.0''" "''http://h:8080/p''" "PStr ''<x/>''" None]
  by (simp add: sets_def)

text \<open>
  Extra options that name \<open>method\<close> replace the method that the payload selects:
  lines 72 to 75 copy every extra option over the description.
\<close>

theorem buildRequest_method_overridden:
  "method_of (buildRequest
       (\<lambda>u. \<lparr>protocol = Some ''http:'', hostname = Some ''h'', port = Some ''8080'',
              pathname = Some ''/p'', search = None, hash = None\<rparr>)
       ''0.8.0'' ''http://h:8080/p'' PNull None (Some [(''method'', OStr ''PUT'')])) =
     Some (OStr ''PUT'')"
  by (simp add: method_of_def buildRequest_def Let_def merge_def set_prop_def)

text \<open>
  C9.  With the extra headers \<open>{Connection: "keep-alive"}\<close>, for every URL and
  payload (and extra options that name neither \<open>headers\<close> nor \<open>body\<close>), the
  \<open>Connection\<close> header of the request is \<open>keep-alive\<close> and its body is the payload.
  More generally every extra header, under any name but \<open>__proto__\<close>, is the header
  of that name in the request, whatever the default was.
\<close>

theorem buildRequest_extra_headers_override:
  "(\<not> sets exoptions ''headers'' \<and> \<not> sets exoptions ''body'' \<longrightarrow>
      header_of (buildRequest url_parse VERSION rurl dat
                   (Some [(''Connection'', HStr ''keep-alive'')]) exoptions) ''Connection'' =
        Some (HStr ''keep-alive'') \<and>
      map_of (buildRequest url_parse VERSION rurl dat
                   (Some [(''Connection'', HStr ''keep-alive'')]) exoptions) ''body'' =
        Some (OPayload dat)) \<and>
   (\<not> sets exoptions ''headers'' \<and> distinct (map fst exh) \<and> (k, v) \<in> set exh \<and> k \<noteq> ''__proto__'' \<longrightarrow>
      header_of (buildRequest url_parse VERSION rurl dat (Some exh) exoptions) k = Some v)"
proof (intro conjI impI)
  assume a: "\<not> sets exoptions ''headers'' \<and> \<not> sets exoptions ''body''"
  have c: "map_of (build_headers (url_parse rurl) VERSION dat
                (Some [(''Connection'', HStr ''keep-alive'')])) ''Connection'' = Some (HStr ''keep-alive'')"
    by (rule build_headers_override) simp_all
  from a c show "header_of (buildRequest url_parse VERSION rurl dat
                   (Some [(''Connection'', HStr ''keep-alive'')]) exoptions) ''Connection'' =
        Some (HStr ''keep-alive'')"
    by (simp add: buildRequest_headers)
  from a c show "map_of (buildRequest url_parse VERSION rurl dat
                   (Some [(''Connection'', HStr ''keep-alive'')]) exoptions) ''body'' =
        Some (OPayload dat)"
    by (simp add: buildRequest_body)
next
  assume a: "\<not> sets exoptions ''headers'' \<and> distinct (map fst exh) \<and> (k, v) \<in> set exh \<and> k \<noteq> ''__proto__''"
  then show "header_of (buildRequest url_parse VERSION rurl dat (Some exh) exoptions) k = Some v"
    by (simp add: buildRequest_headers build_headers_override)
qed

text \<open>The theorem with a string payload, and with two other extra headers.\<close>

theorem buildRequest_extra_headers_override_witness:
  "header_of (buildRequest
       (\<lambda>u. \<lparr>protocol = Some ''http:'', hostname = Some ''h'', port = Some ''8080'',
              pathname = Some ''/p'', search = None, hash = None\<rparr>)
       ''0.8.0'' ''http://h:8080/p'' (PStr ''<x/>'')
       (Some [(''Connection'', HStr ''keep-alive'')]) None) ''Connection'' = Some (HStr ''keep-alive'') \<and>
   map_of (buildRequest
       (\<lambda>u. \<lparr>protocol = Some ''http:'', hostname = Some ''h'', port = Some ''8080'',
              pathname = Some ''/p'', search = None, hash = None\<rparr>)
       ''0.8.0'' ''http://h:8080/p'' (PStr ''<x/>'')
       (Some [(''Connection'', HStr ''keep-alive'')]) None) ''body'' = Some (OPayload (PStr ''<x/>'')) \<and>
   header_of (buildRequest
       (\<lambda>u. \<lparr>protocol = Some ''http:'', hostname = Some ''h'', port = Some ''8080'',
              pathname = Some ''/p'', search = None, hash = None\<rparr>)
       ''0.8.0'' ''http://h:8080/p'' (PStr ''<x/>'')
       (Some [(''Content-Type'', HStr ''text/xml''), (''Accept'', HStr ''text/xml'')]) None) ''Accept'' =
     Some (HStr ''text/xml'')"
  using buildRequest_extra_headers_override [of None "\<lambda>u. \<lparr>protocol = Some ''http:'', hostname = Some ''h'', port = Some ''8080'',
              pathname = Some ''/p'', search = None, hash = None\<rparr>" "''0.8.0''" "''http://h:8080/p''" "PStr ''<x/>''"
              "[(''Content-Type'', HStr ''text/xml''), (''Accept'', HStr ''text/xml'')]" "''Accept''" "HStr ''text/xml''"]
  by (simp add: sets_def)

section \<open>Properties of handleResponse\<close>

text \<open>
  C4, as the code has it.  When \<open>handleResponse\<close> returns for a textual body, the
  attachment map is present on the response, and it is empty when the header declares
  no boundary or the body holds no \<open>xop:Include\<close> reference.  A body that is not a
  string is returned as it is, with the response untouched: no map is attached.
\<close>

theorem handleResponse_attachment_map:
  "(handleResponse res (Text s) = Inr (res', b') \<longrightarrow> (\<exists>m. res_binaries res' = Some m)) \<and>
   (rx_exec bou_flags bou_regex (header_text (map_of (headers res) ''content-type'')) = None \<or>
    rx_exec inc_flags inc_regex s = None \<longrightarrow>
      handleResponse res (Text s) = Inr (res\<lparr>res_binaries := Some []\<rparr>, Text (extract_envelope s))) \<and>
   handleResponse res (Binary bs) = Inr (res, Binary bs)"
proof (intro conjI impI)
  assume "handleResponse res (Text s) = Inr (res', b')"
  then have "handleBinaries res s = Inr res'"
    by (auto simp: handleResponse_def split: sum.splits)
  from handleBinaries_shape[OF this] show "\<exists>m. res_binaries res' = Some m" by auto
next
  assume "rx_exec bou_flags bou_regex (header_text (map_of (headers res) ''content-type'')) = None \<or>
    rx_exec inc_flags inc_regex s = None"
  then have "handleBinaries res s = Inr (res\<lparr>res_binaries := Some []\<rparr>)"
    using handleBinaries_no_boundary handleBinaries_no_include by blast
  then show "handleResponse res (Text s) = Inr (res\<lparr>res_binaries := Some []\<rparr>, Text (extract_envelope s))"
    by (simp add: handleResponse_def)
next
  show "handleResponse res (Binary bs) = Inr (res, Binary bs)"
    by (simp add: handleResponse_def)
qed

text \<open>The theorem on an XML response with some text before the envelope.\<close>

theorem handleResponse_attachment_map_witness:
  "handleResponse
     \<lparr>headers = [(''content-type'', ''text/xml'')], res_binaries = None\<rparr>
     (Text ''junk<a:Envelope>X</a:Envelope>'')
   = Inr (\<lparr>headers = [(''content-type'', ''text/xml'')], res_binaries = Some []\<rparr>,
          Text ''<a:Envelope>X</a:Envelope>'') \<and>
   res_binaries \<lparr>headers = [(''content-type'', ''text/xml'')], res_binaries = Some []\<rparr> = Some []"
proof -
  have p: "rx_exec bou_flags bou_regex ''text/xml'' = None" by code_simp
  have x: "extract_envelope ''junk<a:Envelope>X</a:Envelope>'' = ''<a:Envelope>X</a:Envelope>''"
    by code_simp
  show ?thesis
    using p x
      handleResponse_attachment_map [of "\<lparr>headers = [(''content-type'', ''text/xml'')], res_binaries = None\<rparr>"
             "''junk<a:Envelope>X</a:Envelope>''"
             "\<lparr>headers = [(''content-type'', ''text/xml'')], res_binaries = Some []\<rparr>"
             "Text ''<a:Envelope>X</a:Envelope>''"]
    by (simp add: header_text_def)
qed

text \<open>A response with a binary body has no attachment map after it was handled.\<close>

theorem handleResponse_binary_body_without_map:
  "handleResponse
     \<lparr>headers = [(''content-type'', ''application/octet-stream'')], res_binaries = None\<rparr>
     (Binary [80, 75, 3, 4])
   = Inr (\<lparr>headers = [(''content-type'', ''application/octet-stream'')], res_binaries = None\<rparr>,
          Binary [80, 75, 3, 4])"
  by (simp add: handleResponse_def)

text \<open>
  C6, as the code has it.  The content between the tags is matched greedily: whenever
  the envelope pattern matches, the returned span ends with a closing tag
  \<open></p:Envelope>\<close> for the captured prefix \<open>p\<close> (up to the case of letters), and no
  closing tag for \<open>p\<close> starts at any later position of the body.  With several such
  closing tags the span ends at the last one.
\<close>

theorem envelope_ends_at_last_closing_tag:
  assumes "rx_exec env_flags env_regex body = Some (i, j, cs)"
  shows "extract_envelope body = substr body i (j - i) \<and>
         (\<exists>p. map_of cs 1 = Some p \<and> length p + 12 \<le> j \<and>
              is_closing_tag p (substr body (j - (length p + 12)) (length p + 12)) \<and>
              (\<forall>q. j - (length p + 12) < q \<longrightarrow>
                   \<not> is_closing_tag p (substr body q (length p + 12))))"
  using assms envelope_last_close[OF assms]
  by (simp add: extract_envelope_def matched_def substr_def)

text \<open>The theorem on a body with two closing tags.\<close>

theorem envelope_ends_at_last_closing_tag_witness:
  "rx_exec env_flags env_regex ''<a:Envelope>X</a:Envelope>Y</a:Envelope>Z'' =
     Some (0, 40, [(2, ''>X</a:Envelope>Y''), (1, ''a'')]) \<and>
   extract_envelope ''<a:Envelope>X</a:Envelope>Y</a:Envelope>Z'' =
     substr ''<a:Envelope>X</a:Envelope>Y</a:Envelope>Z'' 0 40 \<and>
   is_closing_tag ''a'' (substr ''<a:Envelope>X</a:Envelope>Y</a:Envelope>Z'' 27 13) \<and>
   \<not> is_closing_tag ''a'' (substr ''<a:Envelope>X</a:Envelope>Y</a:Envelope>Z'' 28 13)"
proof -
  have e: "rx_exec env_flags env_regex ''<a:Envelope>X</a:Envelope>Y</a:Envelope>Z'' =
     Some (0, 40, [(2, ''>X</a:Envelope>Y''), (1, ''a'')])"
    by code_simp
  from envelope_ends_at_last_closing_tag[OF e] show ?thesis using e by simp
qed

text \<open>
  With two closing tags after the start tag, the span runs to the second one, not to
  the earliest.
\<close>

theorem envelope_match_is_greedy:
  "extract_envelope ''<a:Envelope>X</a:Envelope>Y</a:Envelope>Z'' =
     ''<a:Envelope>X</a:Envelope>Y</a:Envelope>''"
  by code_simp

text \<open>
  C7.  Envelope extraction is idempotent: extracting from an extracted body gives that
  body again, for every textual body.  The body
  \<open>junk<a:Envelope>X</a:Envelope>more junk\<close> is reduced to
  \<open><a:Envelope>X</a:Envelope>\<close>, and the body \<open>no envelope here\<close> stays as it is.
\<close>

theorem extract_envelope_idempotent:
  "(\<forall>b. extract_envelope (extract_envelope b) = extract_envelope b) \<and>
   extract_envelope ''junk<a:Envelope>X</a:Envelope>more junk'' = ''<a:Envelope>X</a:Envelope>'' \<and>
   extract_envelope ''no envelope here'' = ''no envelope here''"
proof (intro conjI allI)
  fix b
  show "extract_envelope (extract_envelope b) = extract_envelope b"
  proof (cases "rx_exec env_flags env_regex b")
    case None
    then show ?thesis by (simp add: extract_envelope_def)
  next
    case (Some m)
    have "no_eol env_regex" "no_bol env_regex" by (simp_all add: env_regex_def)
    from rx_exec_matched[OF this Some] Some show ?thesis
      by (simp add: extract_envelope_def matched_def)
  qed
next
  show "extract_envelope ''junk<a:Envelope>X</a:Envelope>more junk'' = ''<a:Envelope>X</a:Envelope>''"
    by code_simp
next
  show "extract_envelope ''no envelope here'' = ''no envelope here''"
    by code_simp
qed

section \<open>Properties of handleBinaries\<close>

text \<open>
  C1, on the code.  A part whose \<open>Content-Id\<close> line names an identifier that no
  \<open>xop:Include\<close> reference seeded makes \<open>handleBinaries\<close> throw: here the XML part
  of a multipart response carries \<open>Content-Id: <root>\<close>, and lines 149 and 155 write
  to \<open>binaries['root']\<close>, which is \<open>undefined\<close>.
\<close>

theorem handleBinaries_throws_on_unseeded_content_id:
  \<open>handleBinaries
     \<lparr>headers = [(''content-type'',
                  ''multipart/related; boundary=XYZ; type="application/xop+xml"'')],
      res_binaries = None\<rparr>
     (''--XYZ'' @ CRLF @
      ''Content-Type: application/xop+xml'' @ CRLF @
      ''Content-Id: <root>'' @ CRLF @
      CRLF @
      ''<a:Envelope><xop:Include href="cid:att1"></xop:Include></a:Envelope>'' @ CRLF @
      ''--XYZ'' @ CRLF @
      ''Content-Id: <att1>'' @ CRLF @
      ''Content-Type: image/png'' @ CRLF @
      CRLF @
      ''BINARYDATA'' @ CRLF @
      ''--XYZ--'')
   = Inl TypeError\<close>
  by code_simp

text \<open>
  C2, on the code.  A body with the two references \<open>cid:a\<close> and \<open>cid:b\<close>: \<open>exec\<close>
  returns the first match only, the loop of lines 123 to 130 runs over the captures of
  that match, and the map is seeded with \<open>a\<close> alone.
\<close>

theorem handleBinaries_seeds_first_reference_only:
  \<open>handleBinaries
     \<lparr>headers = [(''content-type'',
                  ''multipart/related; boundary=XYZ; type="application/xop+xml"'')],
      res_binaries = None\<rparr>
     ''<a:Envelope><xop:Include href="cid:a"></xop:Include><xop:Include href="cid:b"></xop:Include></a:Envelope>''
   = Inr \<lparr>headers = [(''content-type'',
                       ''multipart/related; boundary=XYZ; type="application/xop+xml"'')],
          res_binaries = Some [(''a'', \<lparr>mime = JNull, data = JNull\<rparr>)]\<rparr>\<close>
  by code_simp

text \<open>
  C3.  A multipart response with the boundary \<open>XYZ\<close>, an XML part that refers to
  \<open>cid:att1\<close> and a binary part with the lines \<open>Content-Id: <att1>\<close> and
  \<open>Content-Type: image/png\<close>, a blank line and the data line \<open>BINARYDATA\<close>: the
  parse gives the map with the one entry \<open>att1\<close>, of mime \<open>image/png\<close> and data
  \<open>BINARYDATA\<close>.
\<close>

theorem multipart_round_trip:
  \<open>handleBinaries
     \<lparr>headers = [(''content-type'',
                  ''multipart/related; boundary=XYZ; type="application/xop+xml"'')],
      res_binaries = None\<rparr>
     (''--XYZ'' @ CRLF @
      ''Content-Type: application/xop+xml'' @ CRLF @
      CRLF @
      ''<a:Envelope><xop:Include href="cid:att1"></xop:Include></a:Envelope>'' @ CRLF @
      ''--XYZ'' @ CRLF @
      ''Content-Id: <att1>'' @ CRLF @
      ''Content-Type: image/png'' @ CRLF @
      CRLF @
      ''BINARYDATA'' @ CRLF @
      ''--XYZ--'')
   = Inr \<lparr>headers = [(''content-type'',
                       ''multipart/related; boundary=XYZ; type="application/xop+xml"'')],
          res_binaries =
            Some [(''att1'', \<lparr>mime = JStr ''image/png'', data = JStr ''BINARYDATA''\<rparr>)]\<rparr>\<close>
  by code_simp

text \<open>
  C5, as the code has it.  When the \<open>Content-Type\<close> header has no match for the
  boundary pattern, which is so when the text \<open>boundary=\<close> does not occur in it in
  any case of letters, the parse gives the empty map, whatever the body.  When the
  boundary token is empty (\<open>boundary=;\<close>) the parse goes on as for any boundary: it
  gives the empty map when the body holds no \<open>xop:Include\<close> reference, and for every
  body it returns without an error a map whose entries all have \<open>null\<close> mime and
  \<open>null\<close> data.
\<close>

theorem no_boundary_empty_map:
  "(rx_exec bou_flags bou_regex (header_text (map_of (headers res) ''content-type'')) = None \<longrightarrow>
      handleBinaries res body = Inr (res\<lparr>res_binaries := Some []\<rparr>)) \<and>
   (\<not> occurs_ci ''boundary='' (header_text (map_of (headers res) ''content-type'')) \<longrightarrow>
      rx_exec bou_flags bou_regex (header_text (map_of (headers res) ''content-type'')) = None) \<and>
   (rx_exec bou_flags bou_regex (header_text (map_of (headers res) ''content-type'')) = Some bm \<and>
    capture bm 1 = Some [] \<longrightarrow>
      (rx_exec inc_flags inc_regex body = None \<longrightarrow>
         handleBinaries res body = Inr (res\<lparr>res_binaries := Some []\<rparr>)) \<and>
      (\<exists>b. handleBinaries res body = Inr (res\<lparr>res_binaries := Some b\<rparr>) \<and>
           list_all (\<lambda>e. mime (snd e) = JNull \<and> data (snd e) = JNull) b))"
proof (intro conjI impI)
  assume "rx_exec bou_flags bou_regex (header_text (map_of (headers res) ''content-type'')) = None"
  then show "handleBinaries res body = Inr (res\<lparr>res_binaries := Some []\<rparr>)"
    by (rule handleBinaries_no_boundary)
next
  assume "\<not> occurs_ci ''boundary='' (header_text (map_of (headers res) ''content-type''))"
  then show "rx_exec bou_flags bou_regex (header_text (map_of (headers res) ''content-type'')) = None"
    by (rule bou_occurs)
next
  assume "rx_exec inc_flags inc_regex body = None"
  then show "handleBinaries res body = Inr (res\<lparr>res_binaries := Some []\<rparr>)"
    by (rule handleBinaries_no_include)
next
  assume a: "rx_exec bou_flags bou_regex (header_text (map_of (headers res) ''content-type'')) = Some bm \<and>
    capture bm 1 = Some []"
  let ?b = "case rx_exec inc_flags inc_regex body of None \<Rightarrow> [] | Some m \<Rightarrow> seed [capture m 1] []"
  from a have "handleBinaries res body = Inr (res\<lparr>res_binaries := Some ?b\<rparr>)"
    using handleBinaries_empty_boundary by blast
  moreover have "list_all (\<lambda>e. mime (snd e) = JNull \<and> data (snd e) = JNull) ?b"
    by (simp add: set_prop_def split: option.splits)
  ultimately show "\<exists>b. handleBinaries res body = Inr (res\<lparr>res_binaries := Some b\<rparr>) \<and>
           list_all (\<lambda>e. mime (snd e) = JNull \<and> data (snd e) = JNull) b"
    by blast
qed

text \<open>
  The theorem on a header without a boundary parameter, and on a header with an empty
  boundary and a body without a reference.
\<close>

theorem no_boundary_empty_map_witness:
  \<open>\<not> occurs_ci ''boundary='' ''text/xml; charset=utf-8'' \<and>
   rx_exec bou_flags bou_regex ''text/xml; charset=utf-8'' = None \<and>
   handleBinaries \<lparr>headers = [(''content-type'', ''text/xml; charset=utf-8'')], res_binaries = None\<rparr>
     ''<a:Envelope><xop:Include href="cid:a"></xop:Include></a:Envelope>''
   = Inr \<lparr>headers = [(''content-type'', ''text/xml; charset=utf-8'')], res_binaries = Some []\<rparr> \<and>
   rx_exec bou_flags bou_regex ''multipart/related; boundary=; type=x'' = Some (19, 29, [(1, [])]) \<and>
   rx_exec inc_flags inc_regex ''<a:Envelope>X</a:Envelope>'' = None \<and>
   handleBinaries \<lparr>headers = [(''content-type'', ''multipart/related; boundary=; type=x'')], res_binaries = None\<rparr>
     ''<a:Envelope>X</a:Envelope>''
   = Inr \<lparr>headers = [(''content-type'', ''multipart/related; boundary=; type=x'')], res_binaries = Some []\<rparr>\<close>
proof -
  have o: "\<not> occurs_ci ''boundary='' ''text/xml; charset=utf-8''" by code_simp
  have e: "rx_exec bou_flags bou_regex ''multipart/related; boundary=; type=x'' = Some (19, 29, [(1, [])])"
    by code_simp
  have i: "rx_exec inc_flags inc_regex ''<a:Envelope>X</a:Envelope>'' = None" by code_simp
  show ?thesis
    using o e i
      no_boundary_empty_map [of "\<lparr>headers = [(''content-type'', ''text/xml; charset=utf-8'')], res_binaries = None\<rparr>"
             \<open>''<a:Envelope><xop:Include href="cid:a"></xop:Include></a:Envelope>''\<close>]
      no_boundary_empty_map [of "\<lparr>headers = [(''content-type'', ''multipart/related; boundary=; type=x'')], res_binaries = None\<rparr>"
             "''<a:Envelope>X</a:Envelope>''" "(19, 29, [(1, [])])"]
    by (simp add: header_text_def capture_def)
qed

text \<open>With an empty boundary token and a reference in the body, the map is not empty.\<close>

theorem empty_boundary_seeds_attachment:
  \<open>handleBinaries
     \<lparr>headers = [(''content-type'', ''multipart/related; boundary=; type="application/xop+xml"'')],
      res_binaries = None\<rparr>
     ''<a:Envelope><xop:Include href="cid:a"></xop:Include></a:Envelope>''
   = Inr \<lparr>headers = [(''content-type'', ''multipart/related; boundary=; type="application/xop+xml"'')],
          res_binaries = Some [(''a'', \<lparr>mime = JNull, data = JNull\<rparr>)]\<rparr>\<close>
  by code_simp



end
